theory Spec2Isabelle
  imports Complex_Main "HOL-Library.AList"
begin

section \<open>Values of the host language\<close>

text \<open>
  The transport handles parsed log lines as plain JavaScript values. A value is one of
  the JSON shapes, \<open>undefined\<close> (what reading an absent property gives), or a
  built-in object that only the prototype chain can yield (\<open>JNative\<close>).
  Finite numbers are rationals; an object is the list of its own properties in
  insertion order. Text is a list of 8-bit code units.
\<close>

datatype jsvalue =
    JUndefined
  | JNull
  | JBool bool
  | JNum rat
  | JStr string
  | JArr "jsvalue list"
  | JObj "(string \<times> jsvalue) list"
  | JNative string

type_synonym object = "(string \<times> jsvalue) list"

text \<open>Truthiness, as tested by \<open>if (setName)\<close>.\<close>

fun truthy :: "jsvalue \<Rightarrow> bool" where
  "truthy JUndefined = False"
| "truthy JNull = False"
| "truthy (JBool b) = b"
| "truthy (JNum q) = (q \<noteq> 0)"
| "truthy (JStr s) = (s \<noteq> [])"
| "truthy (JArr xs) = True"
| "truthy (JObj fs) = True"
| "truthy (JNative n) = True"

text \<open>Reading a property: an absent one reads as \<open>undefined\<close>.\<close>

definition field :: "object \<Rightarrow> string \<Rightarrow> jsvalue" where
  "field obj k = (case map_of obj k of None \<Rightarrow> JUndefined | Some v \<Rightarrow> v)"

text \<open>Whether an object has an own property \<open>k\<close>.\<close>

definition has :: "object \<Rightarrow> string \<Rightarrow> bool" where
  "has obj k = (map_of obj k \<noteq> None)"

text \<open>
  Writing a property: an existing key keeps its place and takes the new value, a new
  key goes last.
\<close>

definition put :: "string \<Rightarrow> jsvalue \<Rightarrow> object \<Rightarrow> object" where
  "put k v obj = AList.update k v obj"

text \<open>The rest pattern \<open>{ a, b, ...rest }\<close>: every property but the named ones.\<close>

definition omit :: "string list \<Rightarrow> object \<Rightarrow> object" where
  "omit ks obj = filter (\<lambda>(k, v). k \<notin> set ks) obj"

text \<open>
  The \<open>in\<close> operator, for a key that is neither inherited from \<open>Object.prototype\<close>
  nor an array index (the transport tests \<open>time\<close> and \<open>level\<close> only). On a
  primitive the operator throws (\<open>None\<close>).
\<close>

fun in_op :: "string \<Rightarrow> jsvalue \<Rightarrow> bool option" where
  "in_op k (JObj fs) = Some (has fs k)"
| "in_op k (JArr xs) = Some False"
| "in_op k (JNative n) = Some False"
| "in_op k v = None"

text \<open>The own properties that destructuring and spreading a parsed value see.\<close>

fun properties :: "jsvalue \<Rightarrow> object" where
  "properties (JObj fs) = fs"
| "properties v = []"

section \<open>Text\<close>

text \<open>\<open>String.prototype.toLowerCase\<close> on the code units 0 to 255 (Latin-1).\<close>

definition lower :: "char \<Rightarrow> char" where
  "lower c =
     (let n = of_char c :: int in
      if (65 \<le> n \<and> n \<le> 90) \<or> (192 \<le> n \<and> n \<le> 222 \<and> n \<noteq> 215) then char_of (n + 32)
      else c)"

definition toLowerCase :: "string \<Rightarrow> string" where
  "toLowerCase s = map lower s"

fun startsWith :: "string \<Rightarrow> string \<Rightarrow> bool" where
  "startsWith s [] = True"
| "startsWith [] (p # ps) = False"
| "startsWith (c # cs) (p # ps) = (c = p \<and> startsWith cs ps)"

text \<open>\<open>s.includes(p)\<close>: \<open>p\<close> occurs in \<open>s\<close> at some position.\<close>

fun str_includes :: "string \<Rightarrow> string \<Rightarrow> bool" where
  "str_includes [] p = (p = [])"
| "str_includes (c # cs) p = (startsWith (c # cs) p \<or> str_includes cs p)"

text \<open>\<open>parts.join(sep)\<close>.\<close>

fun join :: "string \<Rightarrow> string list \<Rightarrow> string" where
  "join sep [] = []"
| "join sep [x] = x"
| "join sep (x # y # ys) = x @ sep @ join sep (y # ys)"

text \<open>\<open>chunk.split(sep)\<close> for a one-character separator: always at least one piece.\<close>

fun split_on :: "char \<Rightarrow> string \<Rightarrow> string list" where
  "split_on sep [] = [[]]"
| "split_on sep (c # cs) =
     (if c = sep then [] # split_on sep cs
      else (case split_on sep cs of
              [] \<Rightarrow> [[c]]
            | p # ps \<Rightarrow> (c # p) # ps))"

text \<open>Decimal text of a number that is a non-negative integer, as a template prints it.\<close>

fun digit :: "int \<Rightarrow> char" where
  "digit d = char_of (48 + d)"

function decimal :: "int \<Rightarrow> string" where
  "decimal n = (if n < 10 then [digit n] else decimal (n div 10) @ [digit (n mod 10)])"
  by pat_completeness auto
termination
  by (relation "measure (\<lambda>n. nat n)") auto

declare decimal.simps [simp del]

section \<open>Dates\<close>

text \<open>A field of fixed width, zero-padded: the last \<open>w\<close> decimal digits of \<open>n\<close>.\<close>

fun pad :: "nat \<Rightarrow> int \<Rightarrow> string" where
  "pad 0 n = []"
| "pad (Suc w) n = pad w (n div 10) @ [digit (n mod 10)]"

text \<open>
  The civil date of a day number counted from 1970-01-01 in the proleptic Gregorian
  calendar: first the 400-year era and the day within it, then the year within the era
  and the day within that year (years starting on 1 March), then month and day.
\<close>

definition civil_from_doy :: "int \<Rightarrow> int \<Rightarrow> int \<times> int \<times> int" where
  "civil_from_doy y doy =
     (let mp = (5 * doy + 2) div 153
      in (if mp < 10 then y else y + 1,
          if mp < 10 then mp + 3 else mp - 9,
          doy - (153 * mp + 2) div 5 + 1))"

definition civil_from_doe :: "int \<Rightarrow> int \<Rightarrow> int \<times> int \<times> int" where
  "civil_from_doe era doe =
     (let yoe = (doe - doe div 1460 + doe div 36524 - doe div 146096) div 365
      in civil_from_doy (yoe + era * 400) (doe - (365 * yoe + yoe div 4 - yoe div 100)))"

definition civil :: "int \<Rightarrow> int \<times> int \<times> int" where
  "civil days = civil_from_doe ((days + 719468) div 146097) ((days + 719468) mod 146097)"

definition year_text :: "int \<Rightarrow> string" where
  "year_text y =
     (if 0 \<le> y \<and> y \<le> 9999 then pad 4 y
      else (if y < 0 then ''-'' else ''+'') @ pad 6 \<bar>y\<bar>)"

fun date_text :: "int \<times> int \<times> int \<Rightarrow> string" where
  "date_text (y, m, d) = year_text y @ ''-'' @ pad 2 m @ ''-'' @ pad 2 d"

definition time_text :: "int \<Rightarrow> string" where
  "time_text ms =
     pad 2 (ms div 3600000) @ '':'' @ pad 2 (ms div 60000 mod 60) @ '':''
     @ pad 2 (ms div 1000 mod 60) @ ''.'' @ pad 3 (ms mod 1000)"

text \<open>
  \<open>Date.prototype.toISOString\<close> of a valid time value (milliseconds since the epoch):
  \<open>YYYY-MM-DDTHH:mm:ss.sssZ\<close>, with a signed six-digit year outside 0 to 9999.
\<close>

definition toISOString :: "int \<Rightarrow> string" where
  "toISOString t =
     date_text (civil (t div 86400000)) @ ''T'' @ time_text (t mod 86400000) @ ''Z''"

text \<open>
  The time value of \<open>new Date(q)\<close> for a number: whole milliseconds, truncated towards
  zero, within 8.64e15 of the epoch; outside that range the date is invalid (\<open>None\<close>).
\<close>

definition TimeClip :: "rat \<Rightarrow> int option" where
  "TimeClip q =
     (if \<bar>q\<bar> > 8640000000000000 then None
      else Some (if q < 0 then \<lceil>q\<rceil> else \<lfloor>q\<rfloor>))"

section \<open>A reader of JSON text\<close>

text \<open>
  A recursive-descent reader of the JSON grammar: white space, objects, arrays, strings
  with escapes, numbers, and the three literals. A number is read exactly, as a
  rational. A \<open>\u\<close> escape above \<open>00ff\<close> has no counterpart among the 8-bit code
  units and is not read. The nesting is bounded by an explicit depth, which the length
  of the text always suffices for, since every level consumes a character.
\<close>

definition is_ws :: "char \<Rightarrow> bool" where
  "is_ws c = (c = CHR '' '' \<or> c = CHR 0x09 \<or> c = CHR 0x0A \<or> c = CHR 0x0D)"

fun skip_ws :: "string \<Rightarrow> string" where
  "skip_ws [] = []"
| "skip_ws (c # cs) = (if is_ws c then skip_ws cs else c # cs)"

definition digit_val :: "char \<Rightarrow> int option" where
  "digit_val c = (let n = of_char c :: int in if 48 \<le> n \<and> n \<le> 57 then Some (n - 48) else None)"

definition hex_val :: "char \<Rightarrow> int option" where
  "hex_val c =
     (let n = of_char c :: int in
      if 48 \<le> n \<and> n \<le> 57 then Some (n - 48)
      else if 65 \<le> n \<and> n \<le> 70 then Some (n - 55)
      else if 97 \<le> n \<and> n \<le> 102 then Some (n - 87)
      else None)"

definition hex4 :: "char \<Rightarrow> char \<Rightarrow> char \<Rightarrow> char \<Rightarrow> int option" where
  "hex4 a b c d =
     (case (hex_val a, hex_val b, hex_val c, hex_val d) of
        (Some x, Some y, Some z, Some w) \<Rightarrow> Some (((x * 16 + y) * 16 + z) * 16 + w)
      | _ \<Rightarrow> None)"

definition escape :: "char \<Rightarrow> char option" where
  "escape e =
     (if e = CHR ''\"'' then Some (CHR ''\"'')
      else if e = CHR 0x5C then Some (CHR 0x5C)
      else if e = CHR ''/'' then Some (CHR ''/'')
      else if e = CHR ''b'' then Some (CHR 0x08)
      else if e = CHR ''f'' then Some (CHR 0x0C)
      else if e = CHR ''n'' then Some (CHR 0x0A)
      else if e = CHR ''r'' then Some (CHR 0x0D)
      else if e = CHR ''t'' then Some (CHR 0x09)
      else None)"

fun string_body :: "string \<Rightarrow> (string \<times> string) option" where
  "string_body [] = None"
| "string_body (c # cs) =
     (if c = CHR ''\"'' then Some ([], cs)
      else if c = CHR 0x5C then
        (case cs of
           [] \<Rightarrow> None
         | e # cs' \<Rightarrow>
             if e = CHR ''u'' then
               (case cs' of
                  h1 # h2 # h3 # h4 # r \<Rightarrow>
                    (case hex4 h1 h2 h3 h4 of
                       None \<Rightarrow> None
                     | Some n \<Rightarrow>
                         if n < 256 then map_option (\<lambda>(s, r'). (char_of (nat n) # s, r')) (string_body r)
                         else None)
                | _ \<Rightarrow> None)
             else
               (case escape e of
                  None \<Rightarrow> None
                | Some x \<Rightarrow> map_option (\<lambda>(s, r'). (x # s, r')) (string_body cs')))
      else if (of_char c :: int) < 32 then None
      else map_option (\<lambda>(s, r'). (c # s, r')) (string_body cs))"

fun digits :: "string \<Rightarrow> int list \<times> string" where
  "digits [] = ([], [])"
| "digits (c # cs) =
     (case digit_val c of
        None \<Rightarrow> ([], c # cs)
      | Some d \<Rightarrow> (case digits cs of (ds, r) \<Rightarrow> (d # ds, r)))"

definition nat_of_digits :: "int list \<Rightarrow> int" where
  "nat_of_digits ds = foldl (\<lambda>a d. 10 * a + d) 0 ds"

text \<open>The integer part is a single zero, or digits that do not start with zero.\<close>

definition int_part :: "string \<Rightarrow> (int \<times> string) option" where
  "int_part s =
     (case digits s of
        ([], r) \<Rightarrow> None
      | (d # ds, r) \<Rightarrow>
          if d = 0 then Some (0, drop 1 s) else Some (nat_of_digits (d # ds), r))"

definition frac_part :: "string \<Rightarrow> (rat \<times> string) option" where
  "frac_part s =
     (case s of
        c # cs \<Rightarrow>
          if c = CHR ''.'' then
            (case digits cs of
               ([], r) \<Rightarrow> None
             | (ds, r) \<Rightarrow> Some (of_int (nat_of_digits ds) / 10 ^ length ds, r))
          else Some (0, s)
      | [] \<Rightarrow> Some (0, s))"

definition exp_digits :: "bool \<Rightarrow> string \<Rightarrow> (rat \<times> string) option" where
  "exp_digits neg s =
     (case digits s of
        ([], r) \<Rightarrow> None
      | (ds, r) \<Rightarrow>
          Some (if neg then 1 / 10 ^ nat (nat_of_digits ds) else 10 ^ nat (nat_of_digits ds), r))"

definition exp_part :: "string \<Rightarrow> (rat \<times> string) option" where
  "exp_part s =
     (case s of
        c # cs \<Rightarrow>
          if c = CHR ''e'' \<or> c = CHR ''E'' then
            (case cs of
               x # cs' \<Rightarrow>
                 if x = CHR ''-'' then exp_digits True cs'
                 else if x = CHR ''+'' then exp_digits False cs'
                 else exp_digits False cs
             | [] \<Rightarrow> None)
          else Some (1, s)
      | [] \<Rightarrow> Some (1, s))"

definition unsigned :: "string \<Rightarrow> (rat \<times> string) option" where
  "unsigned s =
     (case int_part s of
        None \<Rightarrow> None
      | Some (i, r1) \<Rightarrow>
          (case frac_part r1 of
             None \<Rightarrow> None
           | Some (f, r2) \<Rightarrow>
               (case exp_part r2 of
                  None \<Rightarrow> None
                | Some (e, r3) \<Rightarrow> Some ((of_int i + f) * e, r3))))"

definition number :: "string \<Rightarrow> (rat \<times> string) option" where
  "number s =
     (case s of
        c # cs \<Rightarrow>
          if c = CHR ''-'' then map_option (\<lambda>(q, r). (- q, r)) (unsigned cs) else unsigned s
      | [] \<Rightarrow> None)"

fun literal :: "string \<Rightarrow> string \<Rightarrow> string option" where
  "literal [] s = Some s"
| "literal (k # ks) [] = None"
| "literal (k # ks) (c # cs) = (if k = c then literal ks cs else None)"

fun parse_value :: "nat \<Rightarrow> string \<Rightarrow> (jsvalue \<times> string) option"
  and parse_elements :: "nat \<Rightarrow> string \<Rightarrow> (jsvalue list \<times> string) option"
  and parse_members :: "nat \<Rightarrow> string \<Rightarrow> ((string \<times> jsvalue) list \<times> string) option"
where
  "parse_value 0 s = None"
| "parse_value (Suc n) s =
     (case skip_ws s of
        [] \<Rightarrow> None
      | c # cs \<Rightarrow>
          if c = CHR ''{'' then
            (case skip_ws cs of
               [] \<Rightarrow> None
             | d # ds \<Rightarrow>
                 if d = CHR ''}'' then Some (JObj [], ds)
                 else map_option (\<lambda>(ms, r). (JObj (foldl (\<lambda>obj (k, v). put k v obj) [] ms), r))
                        (parse_members n cs))
          else if c = CHR ''['' then
            (case skip_ws cs of
               [] \<Rightarrow> None
             | d # ds \<Rightarrow>
                 if d = CHR '']'' then Some (JArr [], ds)
                 else map_option (\<lambda>(vs, r). (JArr vs, r)) (parse_elements n cs))
          else if c = CHR ''\"'' then map_option (\<lambda>(x, r). (JStr x, r)) (string_body cs)
          else if c = CHR ''t'' then map_option (\<lambda>r. (JBool True, r)) (literal ''rue'' cs)
          else if c = CHR ''f'' then map_option (\<lambda>r. (JBool False, r)) (literal ''alse'' cs)
          else if c = CHR ''n'' then map_option (\<lambda>r. (JNull, r)) (literal ''ull'' cs)
          else map_option (\<lambda>(q, r). (JNum q, r)) (number (c # cs)))"
| "parse_elements 0 s = None"
| "parse_elements (Suc n) s =
     (case parse_value n s of
        None \<Rightarrow> None
      | Some (v, r) \<Rightarrow>
          (case skip_ws r of
             [] \<Rightarrow> None
           | c # cs \<Rightarrow>
               if c = CHR '','' then map_option (\<lambda>(vs, r'). (v # vs, r')) (parse_elements n cs)
               else if c = CHR '']'' then Some ([v], cs)
               else None))"
| "parse_members 0 s = None"
| "parse_members (Suc n) s =
     (case skip_ws s of
        [] \<Rightarrow> None
      | q # qs \<Rightarrow>
          if q = CHR ''\"'' then
            (case string_body qs of
               None \<Rightarrow> None
             | Some (k, r) \<Rightarrow>
                 (case skip_ws r of
                    [] \<Rightarrow> None
                  | c # cs \<Rightarrow>
                      if c = CHR '':'' then
                        (case parse_value n cs of
                           None \<Rightarrow> None
                         | Some (v, r') \<Rightarrow>
                             (case skip_ws r' of
                                [] \<Rightarrow> None
                              | d # ds \<Rightarrow>
                                  if d = CHR '','' then
                                    map_option (\<lambda>(ms, r''). ((k, v) # ms, r'')) (parse_members n ds)
                                  else if d = CHR ''}'' then Some ([(k, v)], ds)
                                  else None))
                      else None))
          else None)"

definition parse_json :: "string \<Rightarrow> jsvalue option" where
  "parse_json s =
     (case parse_value (Suc (length s)) s of
        None \<Rightarrow> None
      | Some (v, r) \<Rightarrow> if skip_ws r = [] then Some v else None)"

section \<open>The host runtime\<close>

text \<open>
  What the transport takes from its runtime and this development does not fix:
  \<open>JSON.parse\<close> (\<open>None\<close> when it throws a SyntaxError); the time value that
  \<open>new Date(v)\<close> gives to a string or an object (\<open>None\<close> for an invalid date, on
  which \<open>toISOString\<close> throws, and when the conversion of \<open>v\<close> itself throws); and
  what indexing the level table with a value that is not a number yields, through key
  conversion and the prototype chain (\<open>None\<close> when the conversion throws). Every
  result below holds for any such runtime.
\<close>

record runtime =
  JSON_parse :: "string \<Rightarrow> jsvalue option"
  Date_parse :: "jsvalue \<Rightarrow> int option"
  inherited :: "jsvalue \<Rightarrow> jsvalue option"

text \<open>The time value of \<open>new Date(v)\<close>; \<open>None\<close> is the invalid date.\<close>

fun new_Date :: "runtime \<Rightarrow> jsvalue \<Rightarrow> int option" where
  "new_Date rt (JNum q) = TimeClip q"
| "new_Date rt JUndefined = None"
| "new_Date rt JNull = Some 0"
| "new_Date rt (JBool b) = Some (if b then 1 else 0)"
| "new_Date rt v = Date_parse rt v"

text \<open>A runtime to run examples on: the reader of JSON text above, and no more.\<close>

definition example_runtime :: runtime where
  "example_runtime =
     \<lparr>JSON_parse = parse_json, Date_parse = (\<lambda>v. None), inherited = (\<lambda>v. Some JUndefined)\<rparr>"

section \<open>The peekable stream\<close>

datatype error = SyntaxError | TypeError | RangeError | NoMoreItems

text \<open>
  What an asynchronous call comes to: it returns a value, throws, or stays suspended
  for good. The state after the call comes with the first two.
\<close>

datatype ('a, 's) outcome = Return 'a 's | Throw error 's | Pending

text \<open>
  The fields of \<open>LazyIter\<close>. The underlying iterator is the list of raw chunks it has
  yet to yield; once the list is empty it reports completion. \<open>loops\<close> counts the
  activations of \<open>loop\<close> that are awaiting a result of the underlying iterator: the
  constructor starts one, \<open>resume\<close> starts one more, and one ends when it finds
  \<open>#reading\<close> false after a pass. The two queues of waiting promises are empty
  whenever no call is suspended, and each call below runs to its end, so they are not
  part of the state.
\<close>

record 'a LazyIter =
  done_flag :: bool
  reading :: bool
  loops :: nat
  buffer :: "'a list"
  iter_raw :: "string list"
  transformValue :: "string \<Rightarrow> 'a list"

definition LazyIter_new :: "string list \<Rightarrow> (string \<Rightarrow> 'a list) \<Rightarrow> 'a LazyIter" where
  "LazyIter_new chunks f =
     \<lparr>done_flag = False, reading = True, loops = 1, buffer = [], iter_raw = chunks,
      transformValue = f\<rparr>"

text \<open>The getter \<open>done\<close>.\<close>

definition get_done :: "'a LazyIter \<Rightarrow> bool" where
  "get_done s = (done_flag s \<and> length (buffer s) = 0)"

definition pause :: "'a LazyIter \<Rightarrow> 'a LazyIter" where
  "pause s = s\<lparr>reading := False\<rparr>"

definition resume :: "'a LazyIter \<Rightarrow> bool \<times> 'a LazyIter" where
  "resume s =
     (if done_flag s then (False, s) else (True, s\<lparr>reading := True, loops := Suc (loops s)\<rparr>))"

text \<open>The items a raw chunk contributes: none if the chunk is falsy (the empty string).\<close>

definition items :: "(string \<Rightarrow> 'a list) \<Rightarrow> string \<Rightarrow> 'a list" where
  "items f chunk = (if chunk \<noteq> [] then f chunk else [])"

text \<open>
  What an activation of \<open>loop\<close> does with the result it awaited: it pushes the items
  of a chunk, or on completion sets \<open>#done\<close> and clears \<open>#reading\<close>.
\<close>

definition deliver :: "'a LazyIter \<Rightarrow> 'a LazyIter" where
  "deliver s =
     (case iter_raw s of
        [] \<Rightarrow> s\<lparr>done_flag := True, reading := False\<rparr>
      | chunk # rest \<Rightarrow> s\<lparr>buffer := buffer s @ items (transformValue s) chunk, iter_raw := rest\<rparr>)"

text \<open>
  One pass of the body of \<open>loop\<close>, for an activation that awaits a result: the result
  is handled, and the activation goes on to await the next one while \<open>#reading\<close>
  holds, and ends otherwise.
\<close>

definition loop_body :: "'a LazyIter \<Rightarrow> 'a LazyIter" where
  "loop_body s =
     (if reading (deliver s) then deliver s else (deliver s)\<lparr>loops := loops s - 1\<rparr>)"

text \<open>
  A call that found the buffer empty waits on a promise. A pass of the loop settles
  it: with \<open>True\<close> when it has pushed an item (every waiter is resolved), with \<open>False\<close>
  on completion (a \<open>peek\<close> waiter is resolved, a \<open>next\<close> waiter is rejected). With no
  activation of the loop left nothing settles the promise (\<open>None\<close>).
\<close>

function wait :: "'a LazyIter \<Rightarrow> (bool \<times> 'a LazyIter) option" where
  "wait s =
     (if loops s = 0 then None
      else if iter_raw s = [] then Some (False, loop_body s)
      else if items (transformValue s) (hd (iter_raw s)) \<noteq> [] then Some (True, loop_body s)
      else wait (loop_body s))"
  by pat_completeness auto
termination
  by (relation "measure (\<lambda>s. length (iter_raw s))")
     (auto simp: loop_body_def deliver_def split: list.splits)

declare wait.simps [simp del]

text \<open>\<open>this.buffer[0]\<close>: \<open>undefined\<close> on an empty buffer.\<close>

definition first :: "'a list \<Rightarrow> 'a option" where
  "first xs = (case xs of [] \<Rightarrow> None | x # _ \<Rightarrow> Some x)"

definition peek :: "'a LazyIter \<Rightarrow> ('a option, 'a LazyIter) outcome" where
  "peek s =
     (if get_done s then Return None s
      else if length (buffer s) = 0 then
        (case wait s of
           None \<Rightarrow> Pending
         | Some (pushed, s') \<Rightarrow> Return (first (buffer s')) s')
      else Return (first (buffer s)) s)"

definition peekAnd :: "('a \<Rightarrow> bool) \<Rightarrow> 'a LazyIter \<Rightarrow> ('a option, 'a LazyIter) outcome" where
  "peekAnd test s =
     (case peek s of
        Pending \<Rightarrow> Pending
      | Throw e s' \<Rightarrow> Throw e s'
      | Return None s' \<Rightarrow> Return None s'
      | Return (Some peeked) s' \<Rightarrow> Return (if test peeked then Some peeked else None) s')"

text \<open>
  \<open>this.buffer.shift()!\<close>. The call is reached with an item in the buffer; on an empty
  one \<open>shift\<close> would hand out \<open>undefined\<close>, which is no item, and the model has the
  call throw there.
\<close>

definition shift :: "'a LazyIter \<Rightarrow> ('a, 'a LazyIter) outcome" where
  "shift s =
     (case buffer s of
        [] \<Rightarrow> Throw TypeError s
      | x # xs \<Rightarrow> Return x (s\<lparr>buffer := xs\<rparr>))"

definition next_item :: "'a LazyIter \<Rightarrow> ('a, 'a LazyIter) outcome" where
  "next_item s =
     (if get_done s then Throw NoMoreItems s
      else if length (buffer s) = 0 then
        (case wait s of
           None \<Rightarrow> Pending
         | Some (True, s') \<Rightarrow> shift s'
         | Some (False, s') \<Rightarrow> Throw NoMoreItems s')
      else shift s)"

section \<open>Normalising log lines\<close>

text \<open>The process keeps the pending records in \<open>batch\<close> and reads lines from \<open>iter\<close>.\<close>

record globals =
  batch :: "object list"
  iter :: "string LazyIter"

definition isValidJson :: "runtime \<Rightarrow> string \<Rightarrow> bool" where
  "isValidJson rt line = (case JSON_parse rt line of None \<Rightarrow> False | Some v \<Rightarrow> True)"

text \<open>
  The record that \<open>handleLog\<close> logs about a record with a \<open>name\<close>; \<open>now\<close> is the clock
  reading of \<open>new Date()\<close>.
\<close>

definition name_warning :: "int \<Rightarrow> object \<Rightarrow> object" where
  "name_warning now entry =
     [(''datetime'', JStr (toISOString now)),
      (''level'', JStr ''warn''),
      (''message'',
       JStr ''Log has a name field, but that should be handled by the transport alone, ignoring''),
      (''log'', JObj entry)]"

function handleLog :: "int \<Rightarrow> object \<Rightarrow> object list \<Rightarrow> object list" where
  "handleLog now entry batch0 =
     (if truthy (field entry ''name'')
      then handleLog now (name_warning now entry) batch0 @ [omit [''name''] entry]
      else batch0 @ [omit [''name''] entry])"
  by pat_completeness auto
termination
  by (relation "measure (\<lambda>(now, entry, batch0). if truthy (field entry ''name'') then 1 else 0)")
     (auto simp: field_def name_warning_def)

declare handleLog.simps [simp del]

definition invalid_log :: "int \<Rightarrow> jsvalue \<Rightarrow> string \<Rightarrow> object" where
  "invalid_log now entry fld =
     [(''datetime'', JStr (toISOString now)),
      (''level'', JStr ''warn''),
      (''message'', JStr (''Invalid log line, missing '' @ fld @ '' field'')),
      (''log'', entry)]"

definition handleInvalid :: "int \<Rightarrow> jsvalue \<Rightarrow> string \<Rightarrow> object list \<Rightarrow> object list" where
  "handleInvalid now entry fld batch0 = handleLog now (invalid_log now entry fld) batch0"

definition LEVELS_MAP :: "(rat \<times> string) list" where
  "LEVELS_MAP =
     [(60, ''fatal''), (50, ''error''), (40, ''warn''), (30, ''info''), (20, ''debug''),
      (10, ''trace'')]"

text \<open>\<open>LEVELS_MAP[q]\<close> for a number \<open>q\<close>: its entry in the table, if any.\<close>

definition table_level :: "rat \<Rightarrow> jsvalue" where
  "table_level q = (case map_of LEVELS_MAP q of None \<Rightarrow> JUndefined | Some l \<Rightarrow> JStr l)"

text \<open>\<open>LEVELS_MAP[level]\<close>: the table for a number, the runtime's answer otherwise.\<close>

fun LEVELS_MAP_at :: "runtime \<Rightarrow> jsvalue \<Rightarrow> jsvalue option" where
  "LEVELS_MAP_at rt (JNum q) = Some (table_level q)"
| "LEVELS_MAP_at rt v = inherited rt v"

text \<open>The operator \<open>??\<close>.\<close>

definition coalesce :: "jsvalue \<Rightarrow> jsvalue \<Rightarrow> jsvalue" where
  "coalesce v d = (if v = JUndefined \<or> v = JNull then d else v)"

text \<open>
  The object \<open>final\<close>, from the properties of the parsed line, the time value of
  \<open>new Date(time)\<close> and the value of \<open>LEVELS_MAP[level]\<close>: the rest of the
  properties first, then the four written keys.
\<close>

definition final_log :: "object \<Rightarrow> int \<Rightarrow> jsvalue \<Rightarrow> object" where
  "final_log entry t lvl =
     put ''level'' (coalesce lvl (JStr ''unknown''))
       (put ''datetime'' (JStr (toISOString t))
         (put ''error'' (field entry ''err'')
           (put ''message'' (field entry ''msg'')
             (omit [''msg'', ''time'', ''err'', ''level''] entry))))"

text \<open>
  The \<open>try\<close> block of \<open>handleLine\<close>: the batch it leaves, or the exception that takes
  control to the \<open>catch\<close> block (thrown by \<open>JSON.parse\<close>, by \<open>in\<close> on a primitive, by
  \<open>new Date(time).toISOString()\<close>, or by the conversion of \<open>level\<close> to a key;
  nothing has been pushed by then).
\<close>

definition try_block :: "runtime \<Rightarrow> int \<Rightarrow> string \<Rightarrow> object list \<Rightarrow> error + object list" where
  "try_block rt now line batch0 =
     (case JSON_parse rt line of
        None \<Rightarrow> Inl SyntaxError
      | Some parsed \<Rightarrow>
          (case in_op ''time'' parsed of
             None \<Rightarrow> Inl TypeError
           | Some False \<Rightarrow> Inr (handleInvalid now parsed ''time'' batch0)
           | Some True \<Rightarrow>
               (case in_op ''level'' parsed of
                  None \<Rightarrow> Inl TypeError
                | Some False \<Rightarrow> Inr (handleInvalid now parsed ''level'' batch0)
                | Some True \<Rightarrow>
                    (case new_Date rt (field (properties parsed) ''time'') of
                       None \<Rightarrow> Inl RangeError
                     | Some t \<Rightarrow>
                         (case LEVELS_MAP_at rt (field (properties parsed) ''level'') of
                            None \<Rightarrow> Inl TypeError
                          | Some lvl \<Rightarrow>
                              Inr (handleLog now (final_log (properties parsed) t lvl) batch0))))))"

text \<open>The items a stream will still hand out: the buffer, then what the chunks hold.\<close>

definition pending :: "'a LazyIter \<Rightarrow> 'a list" where
  "pending s = buffer s @ concat (map (items (transformValue s)) (iter_raw s))"

text \<open>
  The \<open>while\<close> loop of the \<open>catch\<close> block: peek at the next line, and while it is not
  valid JSON take it off the stream as one more part of the stack.
\<close>

function scan :: "runtime \<Rightarrow> string list \<Rightarrow> string LazyIter \<Rightarrow> (string list, string LazyIter) outcome"
  where
  "scan rt stackParts s =
     (case peekAnd (\<lambda>line. \<not> isValidJson rt line) s of
        Pending \<Rightarrow> Pending
      | Throw e s' \<Rightarrow> Throw e s'
      | Return None s' \<Rightarrow> Return stackParts s'
      | Return (Some nxt) s' \<Rightarrow>
          (case next_item s' of
             Pending \<Rightarrow> Pending
           | Throw e s'' \<Rightarrow> Throw e s''
           | Return x s'' \<Rightarrow> scan rt (stackParts @ [nxt]) s''))"
  by pat_completeness auto
termination
proof (relation "measure (\<lambda>(rt, stackParts, s). length (pending s))")
  show "wf (measure (\<lambda>(rt, stackParts, s). length (pending s)))"
    by simp
next
  fix rt :: runtime and stackParts :: "string list" and s s' s'' :: "string LazyIter"
    and found nxt x
  assume peeked: "peekAnd (\<lambda>line. \<not> isValidJson rt line) s = Return found s'"
    and some: "found = Some nxt"
    and taken: "next_item s' = Return x s''"
  have wait_pending: "pending u' = pending u \<and> (b \<longrightarrow> buffer u' \<noteq> [])"
    if "wait u = Some (b, u')" for u u' :: "string LazyIter" and b
    using that
  proof (induction u rule: wait.induct)
    case (1 u)
    then show ?case
      by (subst (asm) (2) wait.simps)
        (auto simp: pending_def loop_body_def deliver_def items_def split: if_splits list.splits)
  qed
  from peeked some have "pending s' = pending s \<and> buffer s' \<noteq> []"
    by (auto simp: peekAnd_def peek_def first_def get_done_def
        split: outcome.splits option.splits if_splits list.splits prod.splits
        dest: wait_pending)
  moreover from this taken have "pending s' = x # pending s''"
    by (auto simp: next_item_def shift_def get_done_def pending_def split: list.splits)
  ultimately have "length (pending s'') < length (pending s)"
    by (metis length_Cons lessI)
  then show "((rt, stackParts @ [nxt], s''), (rt, stackParts, s))
      \<in> measure (\<lambda>(rt, stackParts, s). length (pending s))"
    by simp
qed

declare scan.simps [simp del]

definition has_marker :: "string \<Rightarrow> bool" where
  "has_marker line = str_includes (toLowerCase line) ''error: ''"

text \<open>The record that stands for a hard crash, with the collected lines as its stack.\<close>

definition crash_message :: string where
  "crash_message = ''[unable to infer due to this being a hard crash]''"

definition crash_log :: "int \<Rightarrow> string list \<Rightarrow> object" where
  "crash_log now stackParts =
     [(''level'', JStr ''fatal''),
      (''datetime'', JStr (toISOString now)),
      (''message'', JStr crash_message),
      (''error'',
       JObj [(''type'', JStr crash_message),
             (''message'', JStr crash_message),
             (''stack'', JStr (join [CHR 0x0A] stackParts))])]"

definition handleLine :: "runtime \<Rightarrow> int \<Rightarrow> string \<Rightarrow> globals \<Rightarrow> (unit, globals) outcome" where
  "handleLine rt now line g =
     (case try_block rt now line (batch g) of
        Inr batch' \<Rightarrow> Return () (g\<lparr>batch := batch'\<rparr>)
      | Inl e \<Rightarrow>
          (case scan rt [line] (iter g) of
             Pending \<Rightarrow> Pending
           | Throw e' s' \<Rightarrow> Throw e' (g\<lparr>iter := s'\<rparr>)
           | Return stackParts s' \<Rightarrow>
               if \<not> list_ex has_marker stackParts then Return () (g\<lparr>iter := s'\<rparr>)
               else Return ()
                 (g\<lparr>batch := handleLog now (crash_log now stackParts) (batch g), iter := s'\<rparr>)))"

text \<open>
  One pass of the body of the driver's \<open>while (!iter.done)\<close> loop: whatever the pass
  throws is swallowed. \<open>None\<close>: the pass stays suspended.
\<close>

definition drive :: "runtime \<Rightarrow> int \<Rightarrow> globals \<Rightarrow> globals option" where
  "drive rt now g =
     (case next_item (iter g) of
        Pending \<Rightarrow> None
      | Throw e s' \<Rightarrow> Some (g\<lparr>iter := s'\<rparr>)
      | Return item s' \<Rightarrow>
          (case handleLine rt now item (g\<lparr>iter := s'\<rparr>) of
             Pending \<Rightarrow> None
           | Throw e g' \<Rightarrow> Some g'
           | Return u g' \<Rightarrow> Some g'))"

section \<open>Flushing the batch\<close>

text \<open>
  What one call of \<open>flush\<close> meets: the status code and the decoded body of the sink's
  response; the error thrown by the webhook call, if any, as its message, name and
  stack; the clock readings of the two diagnostic records; the records that the
  driver pushes while \<open>flush\<close> awaits the sink and while it awaits the webhook; and
  the service name of the environment.
\<close>

record flush_env =
  statusCode :: int
  response :: jsvalue
  webhook_error :: "(string \<times> string \<times> string) option"
  now_fatal :: int
  now_warn :: int
  during_request :: "object list"
  during_webhook :: "object list"
  SERVICE_NAME :: string

text \<open>
  An embed of the webhook message; \<open>description\<close> is the value that the template
  prints between the code fences.
\<close>

record embed =
  title :: string
  description :: jsvalue

text \<open>
  What a call of \<open>flush\<close> does: the body it posts to the sink, the embeds it sends to
  the webhook, the records its final \<open>splice\<close> takes out of the batch, and the batch
  it leaves.
\<close>

record flushed =
  posted :: "object list option"
  alerted :: "embed list option"
  removed :: "object list"
  batch_after :: "object list"

text \<open>\<open>xs.splice(start, count)\<close>: the elements removed, and the list that remains.\<close>

definition splice :: "nat \<Rightarrow> nat \<Rightarrow> 'a list \<Rightarrow> 'a list \<times> 'a list" where
  "splice start count xs = (take count (drop start xs), take start xs @ drop (start + count) xs)"

definition failure_log :: "flush_env \<Rightarrow> object" where
  "failure_log env =
     [(''datetime'', JStr (toISOString (now_fatal env))),
      (''level'', JStr ''fatal''),
      (''message'',
       JStr (''Failed to send logs to Parseable, got status code '' @ decimal (statusCode env))),
      (''statusCode'', JNum (of_int (statusCode env))),
      (''response'', response env)]"

definition webhook_log :: "flush_env \<Rightarrow> string \<times> string \<times> string \<Rightarrow> object" where
  "webhook_log env err =
     (case err of (message, name, stack) \<Rightarrow>
        [(''datetime'', JStr (toISOString (now_warn env))),
         (''level'', JStr ''warn''),
         (''message'', JStr ''Failed to send fatal logs to Discord''),
         (''error'', JObj [(''message'', JStr message), (''type'', JStr name), (''stack'', JStr stack)])])"

definition is_alert :: "object \<Rightarrow> bool" where
  "is_alert entry = (field entry ''level'' = JStr ''fatal'' \<or> field entry ''level'' = JStr ''error'')"

text \<open>\<open>log.error?.stack\<close>: only an object can have the property.\<close>

fun optional_stack :: "jsvalue \<Rightarrow> jsvalue" where
  "optional_stack (JObj fs) = field fs ''stack''"
| "optional_stack v = JUndefined"

definition embed_of :: "string \<Rightarrow> object \<Rightarrow> embed" where
  "embed_of service entry =
     \<lparr>title =
        (if field entry ''level'' = JStr ''fatal'' then ''Fatal error occured in service '' @ service
         else ''Error occured in service '' @ service),
      description = coalesce (optional_stack (field entry ''error'')) (field entry ''message'')\<rparr>"

text \<open>The batch once the response of the sink is there: a failure is logged.\<close>

definition after_request :: "flush_env \<Rightarrow> object list \<Rightarrow> object list" where
  "after_request env batch0 =
     (if statusCode env \<noteq> 200 then handleLog (now_fatal env) (failure_log env) batch0
      else batch0)"

text \<open>The batch once the webhook call is over: an error it threw is logged.\<close>

definition after_webhook :: "flush_env \<Rightarrow> object list \<Rightarrow> object list" where
  "after_webhook env batch0 =
     (case webhook_error env of
        None \<Rightarrow> batch0
      | Some err \<Rightarrow> handleLog (now_warn env) (webhook_log env err) batch0)"

definition clear :: "object list option \<Rightarrow> embed list option \<Rightarrow> object list \<Rightarrow> flushed" where
  "clear body embeds batch0 =
     (case splice 0 (length batch0) batch0 of
        (out, left) \<Rightarrow> \<lparr>posted = body, alerted = embeds, removed = out, batch_after = left\<rparr>)"

definition flush :: "flush_env \<Rightarrow> object list \<Rightarrow> flushed" where
  "flush env batch0 =
     (if length batch0 = 0
      then \<lparr>posted = None, alerted = None, removed = [], batch_after = batch0\<rparr>
      else if length (filter is_alert (after_request env (batch0 @ during_request env))) = 0
      then clear (Some batch0) None (after_request env (batch0 @ during_request env))
      else clear (Some batch0)
             (Some (map (embed_of (SERVICE_NAME env))
                      (filter is_alert (after_request env (batch0 @ during_request env)))))
             (after_webhook env (after_request env (batch0 @ during_request env) @ during_webhook env)))"

section \<open>Streams that run\<close>

text \<open>
  A stream as the constructor and the loop leave it when it is never paused: until the
  underlying iterator completes, \<open>#reading\<close> holds and an activation of the loop
  awaits the next chunk.
\<close>

definition streaming :: "'a LazyIter \<Rightarrow> bool" where
  "streaming s = (if done_flag s then iter_raw s = [] else reading s \<and> 0 < loops s)"

text \<open>
  The states a stream can be in: as constructed, after a pass of the loop, after a
  call of one of its methods.
\<close>

inductive reachable :: "'a LazyIter \<Rightarrow> bool" where
  created: "reachable (LazyIter_new chunks f)"
| looped: "reachable s \<Longrightarrow> 0 < loops s \<Longrightarrow> reachable (loop_body s)"
| peeked: "reachable s \<Longrightarrow> peek s = Return a s' \<Longrightarrow> reachable s'"
| taken: "reachable s \<Longrightarrow> next_item s = Return x s' \<Longrightarrow> reachable s'"
| refused: "reachable s \<Longrightarrow> next_item s = Throw e s' \<Longrightarrow> reachable s'"
| paused: "reachable s \<Longrightarrow> reachable (pause s)"
| resumed: "reachable s \<Longrightarrow> reachable (snd (resume s))"

section \<open>Records as the batch is to hold them\<close>

definition well_formed :: "object \<Rightarrow> bool" where
  "well_formed entry = (has entry ''datetime'' \<and> has entry ''level'' \<and> \<not> has entry ''name'')"

lemma toISOString_example: "toISOString 1690000000000 = ''2023-07-22T04:26:40.000Z''"
  by code_simp

lemma parse_json_example:
  "parse_json ''{\"time\":1690000000000,\"level\":50,\"msg\":\"boom\"}'' =
     Some (JObj [(''time'', JNum 1690000000000), (''level'', JNum 50), (''msg'', JStr ''boom'')])"
  by code_simp

section \<open>Auxiliary facts\<close>

lemma map_of_omit: "map_of (omit ks e) k = (if k \<in> set ks then None else map_of e k)"
  by (induction e) (auto simp: omit_def)

lemma has_omit: "has (omit ks e) k = (has e k \<and> k \<notin> set ks)"
  by (simp add: has_def map_of_omit)

lemma field_omit: "field (omit ks e) k = (if k \<in> set ks then JUndefined else field e k)"
  by (simp add: field_def map_of_omit)

lemma map_of_put: "map_of (put k v e) k' = (if k' = k then Some v else map_of e k')"
  by (simp add: put_def update_conv')

lemma has_put: "has (put k v e) k' = (k' = k \<or> has e k')"
  by (simp add: has_def map_of_put)

lemma field_put: "field (put k v e) k' = (if k' = k then v else field e k')"
  by (simp add: field_def map_of_put)

lemma handleLog_plain: "\<not> truthy (field e ''name'') \<Longrightarrow> handleLog now e b = b @ [omit [''name''] e]"
  by (simp add: handleLog.simps)

lemma name_warning_name: "field (name_warning now e) ''name'' = JUndefined"
  by (simp add: name_warning_def field_def)

lemma omit_name_warning: "omit [''name''] (name_warning now e) = name_warning now e"
  by (simp add: name_warning_def omit_def)

lemma handleLog_named:
  "truthy (field e ''name'') \<Longrightarrow> handleLog now e b = b @ [name_warning now e, omit [''name''] e]"
  by (subst handleLog.simps) (simp add: handleLog_plain name_warning_name omit_name_warning)

lemma wait_streaming:
  "streaming s \<Longrightarrow> \<not> done_flag s \<Longrightarrow> buffer s = [] \<Longrightarrow>
   \<exists>b s'. wait s = Some (b, s') \<and> streaming s' \<and> pending s' = pending s
      \<and> transformValue s' = transformValue s
      \<and> (if pending s = [] then \<not> b \<and> done_flag s' \<and> buffer s' = [] else b \<and> buffer s' \<noteq> [] \<and> \<not> done_flag s')"
proof (induction s rule: wait.induct)
  case (1 s)
  show ?case
  proof (cases "iter_raw s")
    case Nil
    with "1.prems" show ?thesis
      by (subst wait.simps) (auto simp: streaming_def loop_body_def deliver_def pending_def)
  next
    case (Cons c cs)
    show ?thesis
    proof (cases "items (transformValue s) c = []")
      case True
      have "streaming (loop_body s)" "\<not> done_flag (loop_body s)" "buffer (loop_body s) = []"
        using "1.prems" Cons True by (simp_all add: streaming_def loop_body_def deliver_def)
      from "1.IH"[OF _ _ _ this] "1.prems" Cons True
      obtain b s' where "wait (loop_body s) = Some (b, s')" "streaming s'"
        "pending s' = pending (loop_body s)" "transformValue s' = transformValue (loop_body s)"
        "if pending (loop_body s) = [] then \<not> b \<and> done_flag s' \<and> buffer s' = []
         else b \<and> buffer s' \<noteq> [] \<and> \<not> done_flag s'"
        by (auto simp: streaming_def)
      moreover have "pending (loop_body s) = pending s" "transformValue (loop_body s) = transformValue s"
        using Cons True "1.prems" by (simp_all add: loop_body_def deliver_def pending_def)
      moreover have "wait s = wait (loop_body s)"
        using Cons True "1.prems" by (subst wait.simps) (simp add: streaming_def)
      ultimately show ?thesis by simp
    next
      case False
      with "1.prems" Cons show ?thesis
        by (subst wait.simps) (auto simp: streaming_def loop_body_def deliver_def pending_def)
    qed
  qed
qed

lemma peek_streaming:
  assumes "streaming s"
  shows "\<exists>s'. peek s = Return (first (pending s)) s' \<and> streaming s' \<and> pending s' = pending s
     \<and> transformValue s' = transformValue s \<and> (pending s \<noteq> [] \<longrightarrow> buffer s' \<noteq> [])"
proof (cases "buffer s")
  case (Cons x xs)
  with assms show ?thesis
    by (simp add: peek_def get_done_def first_def pending_def)
next
  case Nil
  show ?thesis
  proof (cases "done_flag s")
    case True
    with Nil assms show ?thesis
      by (simp add: peek_def get_done_def first_def pending_def streaming_def)
  next
    case False
    from wait_streaming[OF assms False Nil] obtain b s' where
      w: "wait s = Some (b, s')" "streaming s'" "pending s' = pending s"
        "transformValue s' = transformValue s"
        "if pending s = [] then \<not> b \<and> done_flag s' \<and> buffer s' = []
         else b \<and> buffer s' \<noteq> [] \<and> \<not> done_flag s'"
      by blast
    have "first (buffer s') = first (pending s)"
    proof (cases "pending s = []")
      case True
      with w show ?thesis by (simp add: first_def)
    next
      case False
      with w have "buffer s' \<noteq> []" by simp
      then show ?thesis
        unfolding w(3)[symmetric] by (cases "buffer s'") (simp_all add: first_def pending_def)
    qed
    with w Nil False show ?thesis
      by (auto simp: peek_def get_done_def)
  qed
qed

lemma shift_Cons:
  "buffer s = x # xs \<Longrightarrow> shift s = Return x (s\<lparr>buffer := xs\<rparr>)"
  by (simp add: shift_def)

lemma next_item_streaming_Cons:
  assumes "streaming s" and "pending s = x # xs"
  shows "\<exists>s'. next_item s = Return x s' \<and> streaming s' \<and> pending s' = xs
     \<and> transformValue s' = transformValue s"
proof (cases "buffer s")
  case (Cons y ys)
  with assms show ?thesis
    by (auto simp: next_item_def get_done_def shift_def pending_def streaming_def)
next
  case Nil
  have nd: "\<not> done_flag s"
    using assms Nil by (auto simp: streaming_def pending_def)
  from wait_streaming[OF assms(1) nd Nil] assms(2) obtain s' where
    w: "wait s = Some (True, s')" "streaming s'" "pending s' = pending s"
      "transformValue s' = transformValue s" "buffer s' \<noteq> []" "\<not> done_flag s'"
    by auto
  then obtain y ys where b: "buffer s' = y # ys"
    by (cases "buffer s'") auto
  with w assms(2) have "y = x" "ys @ concat (map (items (transformValue s')) (iter_raw s')) = xs"
    by (simp_all add: pending_def)
  with w b Nil nd show ?thesis
    by (auto simp: next_item_def get_done_def shift_def pending_def streaming_def)
qed

lemma next_item_streaming_Nil:
  assumes "streaming s" and "pending s = []"
  shows "\<exists>s'. next_item s = Throw NoMoreItems s' \<and> streaming s' \<and> get_done s' \<and> pending s' = []"
proof (cases "done_flag s")
  case True
  with assms show ?thesis
    by (auto simp: next_item_def get_done_def pending_def)
next
  case False
  from assms(2) have Nil: "buffer s = []" by (simp add: pending_def)
  from wait_streaming[OF assms(1) False Nil] assms(2) obtain s' where
    "wait s = Some (False, s')" "streaming s'" "pending s' = pending s" "done_flag s'" "buffer s' = []"
    by auto
  with Nil False assms(2) show ?thesis
    by (auto simp: next_item_def get_done_def)
qed


lemma scan_streaming:
  assumes "streaming s"
  shows "\<exists>s'. scan rt parts s
            = Return (parts @ takeWhile (\<lambda>line. \<not> isValidJson rt line) (pending s)) s'
          \<and> streaming s'
          \<and> pending s' = dropWhile (\<lambda>line. \<not> isValidJson rt line) (pending s)"
  using assms
proof (induction "pending s" arbitrary: s parts)
  case Nil
  from peek_streaming[OF Nil.prems] Nil.hyps obtain s1 where
    "peek s = Return None s1" "streaming s1" "pending s1 = []"
    by (auto simp: first_def)
  with Nil.hyps show ?case
    by (subst scan.simps) (simp add: peekAnd_def)
next
  case (Cons x xs)
  from peek_streaming[OF Cons.prems] Cons.hyps(2) obtain s1 where
    p: "peek s = Return (Some x) s1" "streaming s1" "pending s1 = x # xs"
    by (auto simp: first_def split: list.splits)
  show ?case
  proof (cases "isValidJson rt x")
    case True
    with p Cons.hyps(2)[symmetric] show ?thesis
      by (subst scan.simps) (auto simp: peekAnd_def)
  next
    case False
    from next_item_streaming_Cons[OF p(2) p(3)] obtain s2 where
      n: "next_item s1 = Return x s2" "streaming s2" "pending s2 = xs"
      by blast
    from Cons.hyps(1)[OF n(3)[symmetric] n(2), of "parts @ [x]"] obtain s' where
      "scan rt (parts @ [x]) s2
         = Return ((parts @ [x]) @ takeWhile (\<lambda>line. \<not> isValidJson rt line) xs) s'"
      "streaming s'" "pending s' = dropWhile (\<lambda>line. \<not> isValidJson rt line) xs"
      using n(3) by auto
    moreover have "scan rt parts s = scan rt (parts @ [x]) s2"
      using p n False by (subst scan.simps) (simp add: peekAnd_def)
    ultimately show ?thesis
      using False Cons.hyps(2)[symmetric] by simp
  qed
qed

lemma try_block_unparseable: "JSON_parse rt line = None \<Longrightarrow> try_block rt now line b = Inl SyntaxError"
  by (simp add: try_block_def)

lemma crash_log_plain: "\<not> truthy (field (crash_log now parts) ''name'')"
  by (simp add: crash_log_def field_def)

lemma omit_crash_log: "omit [''name''] (crash_log now parts) = crash_log now parts"
  by (simp add: crash_log_def omit_def)

lemma handleLine_caught:
  assumes "try_block rt now line (batch g) = Inl e" and "streaming (iter g)"
    and "takeWhile (\<lambda>l. \<not> isValidJson rt l) (pending (iter g)) = run"
    and "dropWhile (\<lambda>l. \<not> isValidJson rt l) (pending (iter g)) = left"
  shows "\<exists>s'. handleLine rt now line g =
           Return ()
             (g\<lparr>batch := batch g @
                   (if list_ex has_marker (line # run) then [crash_log now (line # run)] else []),
                 iter := s'\<rparr>)
         \<and> streaming s' \<and> pending s' = left"
proof -
  from scan_streaming[OF assms(2), of rt "[line]"] assms(3,4) obtain s' where
    sc: "scan rt [line] (iter g) = Return (line # run) s'" "streaming s'" "pending s' = left"
    by auto
  show ?thesis
  proof (cases "list_ex has_marker (line # run)")
    case True
    with sc assms(1) show ?thesis
      by (intro exI[of _ s'])
        (simp add: handleLine_def handleLog_plain crash_log_plain omit_crash_log)
  next
    case False
    with sc assms(1) show ?thesis
      by (intro exI[of _ s']) (simp add: handleLine_def)
  qed
qed

lemma handleLine_unparseable:
  assumes "JSON_parse rt line = None" and "streaming (iter g)"
    and "takeWhile (\<lambda>l. \<not> isValidJson rt l) (pending (iter g)) = run"
    and "dropWhile (\<lambda>l. \<not> isValidJson rt l) (pending (iter g)) = left"
  shows "\<exists>s'. handleLine rt now line g =
           Return ()
             (g\<lparr>batch := batch g @
                   (if list_ex has_marker (line # run) then [crash_log now (line # run)] else []),
                 iter := s'\<rparr>)
         \<and> streaming s' \<and> pending s' = left"
  using handleLine_caught[OF try_block_unparseable[OF assms(1)] assms(2,3,4)] .

lemma wait_done:
  assumes "wait u = Some (b, u')" and "done_flag u'"
    and "done_flag u \<longrightarrow> iter_raw u = [] \<and> \<not> reading u"
  shows "iter_raw u' = [] \<and> \<not> reading u'"
  using assms
proof (induction u rule: wait.induct)
  case (1 u)
  then show ?case
    by (subst (asm) (2) wait.simps) (auto simp: loop_body_def deliver_def split: if_splits list.splits)
qed

lemma peek_done:
  assumes "peek s = Return a s'" and "done_flag s \<longrightarrow> iter_raw s = [] \<and> \<not> reading s"
  shows "done_flag s' \<longrightarrow> iter_raw s' = [] \<and> \<not> reading s'"
  using assms wait_done[of s _ s']
  by (auto simp: peek_def split: if_splits option.splits)

lemma shift_done:
  assumes "shift s = Return x s' \<or> shift s = Throw e s'"
  shows "done_flag s' = done_flag s \<and> iter_raw s' = iter_raw s \<and> reading s' = reading s"
  using assms by (auto simp: shift_def split: list.splits)

lemma next_item_done:
  assumes "next_item s = Return x s' \<or> next_item s = Throw e s'"
    and "done_flag s \<longrightarrow> iter_raw s = [] \<and> \<not> reading s"
  shows "done_flag s' \<longrightarrow> iter_raw s' = [] \<and> \<not> reading s'"
proof (cases "get_done s \<or> buffer s \<noteq> []")
  case True
  with assms show ?thesis
    using shift_done[of s x s' e] by (auto simp: next_item_def split: if_splits)
next
  case False
  show ?thesis
  proof (cases "wait s")
    case None
    with False assms(1) show ?thesis by (simp add: next_item_def)
  next
    case (Some r)
    obtain b u where r: "r = (b, u)" by (cases r)
    from wait_done[of s b u] Some r assms(2)
    have u: "done_flag u \<longrightarrow> iter_raw u = [] \<and> \<not> reading u" by simp
    show ?thesis
    proof (cases b)
      case True
      with False Some r assms(1) have "shift u = Return x s' \<or> shift u = Throw e s'"
        by (simp add: next_item_def)
      from shift_done[OF this] u show ?thesis by simp
    next
      case b: False
      with False Some r assms(1) have "s' = u"
        by (simp add: next_item_def)
      with u show ?thesis by simp
    qed
  qed
qed

lemma reachable_done: "reachable s \<Longrightarrow> done_flag s \<longrightarrow> iter_raw s = [] \<and> \<not> reading s"
proof (induction rule: reachable.induct)
  case (created chunks f)
  then show ?case by (simp add: LazyIter_new_def)
next
  case (looped s)
  then show ?case by (auto simp: loop_body_def deliver_def split: list.splits)
next
  case (peeked s a s')
  then show ?case using peek_done by blast
next
  case (taken s x s')
  then show ?case using next_item_done[of s x s'] by blast
next
  case (refused s e s')
  then show ?case using next_item_done[of s _ s' e] by blast
next
  case (paused s)
  then show ?case by (simp add: pause_def)
next
  case (resumed s)
  then show ?case by (auto simp: resume_def split: if_splits)
qed

lemma not_isValidJson: "(\<not> isValidJson rt line) = (JSON_parse rt line = None)"
  by (simp add: isValidJson_def split: option.splits)

lemma takeWhile_unparseable:
  "takeWhile (\<lambda>l. \<not> isValidJson rt l) xs = takeWhile (\<lambda>l. JSON_parse rt l = None) xs"
  by (simp add: not_isValidJson)

lemma dropWhile_unparseable:
  "dropWhile (\<lambda>l. \<not> isValidJson rt l) xs = dropWhile (\<lambda>l. JSON_parse rt l = None) xs"
  by (simp add: not_isValidJson)

lemma handleLine_structured:
  assumes "JSON_parse rt line = Some (JObj fs)"
    and "field fs ''time'' = JNum tq" and "TimeClip tq = Some t"
    and "field fs ''level'' = JNum lv"
  shows "handleLine rt now line g =
           Return ()
             (g\<lparr>batch := batch g
                   @ (if truthy (field fs ''name'') then [name_warning now (final_log fs t (table_level lv))] else [])
                   @ [omit [''name''] (final_log fs t (table_level lv))]\<rparr>)"
proof -
  have time: "has fs ''time''" and level: "has fs ''level''"
    using assms(2,4) by (auto simp: has_def field_def split: option.splits)
  have name: "field (final_log fs t (table_level lv)) ''name'' = field fs ''name''"
    by (simp add: final_log_def field_put field_omit)
  have "handleLine rt now line g =
      Return () (g\<lparr>batch := handleLog now (final_log fs t (table_level lv)) (batch g)\<rparr>)"
    using assms time level by (simp add: handleLine_def try_block_def)
  moreover have "handleLog now (final_log fs t (table_level lv)) (batch g) =
      batch g @ (if truthy (field fs ''name'') then [name_warning now (final_log fs t (table_level lv))] else [])
        @ [omit [''name''] (final_log fs t (table_level lv))]"
    using name by (simp add: handleLog_plain handleLog_named)
  ultimately show ?thesis by simp
qed

lemma drive_Cons:
  assumes "streaming (iter g)" and "pending (iter g) = x # xs"
  shows "\<exists>s'. next_item (iter g) = Return x s' \<and> streaming s' \<and> pending s' = xs
          \<and> drive rt now g =
              (case handleLine rt now x (g\<lparr>iter := s'\<rparr>) of
                 Pending \<Rightarrow> None
               | Throw e g' \<Rightarrow> Some g'
               | Return u g' \<Rightarrow> Some g')"
proof -
  from next_item_streaming_Cons[OF assms] obtain s' where
    "next_item (iter g) = Return x s'" "streaming s'" "pending s' = xs"
    by blast
  then show ?thesis
    by (intro exI[of _ s']) (simp add: drive_def)
qed

lemma drive_caught:
  assumes "streaming (iter g)" and "pending (iter g) = line # later"
    and "try_block rt now line (batch g) = Inl e"
    and "takeWhile (\<lambda>l. \<not> isValidJson rt l) later = run"
    and "dropWhile (\<lambda>l. \<not> isValidJson rt l) later = left"
  shows "\<exists>g'. drive rt now g = Some g'
          \<and> batch g' = batch g @
              (if list_ex has_marker (line # run) then [crash_log now (line # run)] else [])
          \<and> streaming (iter g') \<and> pending (iter g') = left"
proof -
  from drive_Cons[OF assms(1,2), of rt now]
  obtain s1 where s1: "streaming s1" "pending s1 = later"
    and d1: "drive rt now g =
      (case handleLine rt now line (g\<lparr>iter := s1\<rparr>) of
         Pending \<Rightarrow> None | Throw e g' \<Rightarrow> Some g' | Return u g' \<Rightarrow> Some g')"
    by auto
  from handleLine_caught[of rt now line "g\<lparr>iter := s1\<rparr>" e run left] assms(3,4,5) s1
  obtain s2 where h: "handleLine rt now line (g\<lparr>iter := s1\<rparr>) =
      Return ()
        (g\<lparr>batch := batch g @
              (if list_ex has_marker (line # run) then [crash_log now (line # run)] else []),
           iter := s2\<rparr>)"
    and s2: "streaming s2" "pending s2 = left"
    by auto
  show ?thesis
    unfolding d1 h using s2 by simp
qed

lemma well_formed_omit:
  "has entry ''datetime'' \<Longrightarrow> has entry ''level'' \<Longrightarrow> well_formed (omit [''name''] entry)"
  by (simp add: well_formed_def has_omit)

lemma well_formed_name_warning: "well_formed (name_warning now entry)"
  by (simp add: well_formed_def name_warning_def has_def)

lemma handleLog_well_formed:
  assumes "list_all well_formed batch0" and "has entry ''datetime''" and "has entry ''level''"
  shows "list_all well_formed (handleLog now entry batch0)"
  using assms
  by (cases "truthy (field entry ''name'')")
    (simp_all add: handleLog_named handleLog_plain well_formed_omit well_formed_name_warning)

lemma handleInvalid_well_formed:
  "list_all well_formed batch0 \<Longrightarrow> list_all well_formed (handleInvalid now v fld batch0)"
  unfolding handleInvalid_def
  by (rule handleLog_well_formed) (simp_all add: invalid_log_def has_def)

lemma try_block_well_formed:
  assumes "list_all well_formed batch0" and "try_block rt now line batch0 = Inr batch1"
  shows "list_all well_formed batch1"
proof -
  have "list_all well_formed (handleLog now (final_log fs t lvl) batch0)" for fs t lvl
    using assms(1) by (rule handleLog_well_formed) (simp_all add: final_log_def has_put)
  with assms show ?thesis
    by (auto simp: try_block_def handleInvalid_well_formed
        split: option.splits bool.splits)
qed

lemma handleLine_well_formed:
  assumes "list_all well_formed (batch g)"
    and "handleLine rt now line g = Return u g' \<or> handleLine rt now line g = Throw e g'"
  shows "list_all well_formed (batch g')"
proof (cases "try_block rt now line (batch g)")
  case (Inr batch1)
  with assms try_block_well_formed[OF assms(1) Inr] show ?thesis
    by (auto simp: handleLine_def)
next
  case (Inl err)
  have "list_all well_formed (handleLog now (crash_log now parts) (batch g))" for parts
    using assms(1) by (rule handleLog_well_formed) (simp_all add: crash_log_def has_def)
  with Inl assms show ?thesis
    by (auto simp: handleLine_def split: outcome.splits if_splits)
qed

lemma drive_well_formed:
  assumes "list_all well_formed (batch g)" and "drive rt now g = Some g'"
  shows "list_all well_formed (batch g')"
proof (cases "next_item (iter g)")
  case (Return item s')
  with assms(2) obtain u e where
    "handleLine rt now item (g\<lparr>iter := s'\<rparr>) = Return u g'
     \<or> handleLine rt now item (g\<lparr>iter := s'\<rparr>) = Throw e g'"
    by (auto simp: drive_def split: outcome.splits)
  from handleLine_well_formed[OF _ this] assms(1) show ?thesis by simp
next
  case (Throw e s')
  with assms show ?thesis by (auto simp: drive_def)
next
  case Pending
  with assms show ?thesis by (simp add: drive_def)
qed

lemma splice_all: "splice 0 (length xs) xs = (xs, [])"
  by (simp add: splice_def)

lemma after_request_well_formed:
  "list_all well_formed batch0 \<Longrightarrow> list_all well_formed (after_request env batch0)"
  unfolding after_request_def
  by (auto intro!: handleLog_well_formed simp: failure_log_def has_def)

lemma after_webhook_well_formed:
  "list_all well_formed batch0 \<Longrightarrow> list_all well_formed (after_webhook env batch0)"
  unfolding after_webhook_def
  by (auto intro!: handleLog_well_formed simp: webhook_log_def has_def split: option.splits prod.splits)

lemma flush_well_formed:
  assumes "list_all well_formed batch0"
    and "list_all well_formed (during_request env)" and "list_all well_formed (during_webhook env)"
  shows "list_all well_formed (removed (flush env batch0))
       \<and> list_all well_formed (batch_after (flush env batch0))
       \<and> (\<forall>body. posted (flush env batch0) = Some body \<longrightarrow> list_all well_formed body)"
proof -
  have 1: "list_all well_formed (after_request env (batch0 @ during_request env))"
    using assms by (intro after_request_well_formed) simp
  then have 2: "list_all well_formed
      (after_webhook env (after_request env (batch0 @ during_request env) @ during_webhook env))"
    using assms by (intro after_webhook_well_formed) simp
  from 1 2 assms(1) show ?thesis
    by (simp add: flush_def clear_def splice_all)
qed

lemma flush_empties:
  "batch0 \<noteq> [] \<Longrightarrow> batch_after (flush env batch0) = []"
  by (simp add: flush_def clear_def splice_all)

lemma startsWith_iff: "startsWith s p = (\<exists>b. s = p @ b)"
  by (induction s p rule: startsWith.induct) auto

lemma str_includes_iff: "str_includes s p = (\<exists>a b. s = a @ p @ b)"
proof (induction s)
  case Nil
  then show ?case by auto
next
  case (Cons c cs)
  show ?case
  proof
    assume "str_includes (c # cs) p"
    then consider "startsWith (c # cs) p" | "str_includes cs p" by auto
    then show "\<exists>a b. c # cs = a @ p @ b"
    proof cases
      case 1
      then obtain b where "c # cs = [] @ p @ b" by (auto simp: startsWith_iff)
      then show ?thesis by blast
    next
      case 2
      with Cons obtain a b where "cs = a @ p @ b" by auto
      then have "c # cs = (c # a) @ p @ b" by simp
      then show ?thesis by blast
    qed
  next
    assume "\<exists>a b. c # cs = a @ p @ b"
    then obtain a b where ab: "c # cs = a @ p @ b" by blast
    show "str_includes (c # cs) p"
    proof (cases a)
      case Nil
      with ab have "startsWith (c # cs) p" by (simp add: startsWith_iff)
      then show ?thesis by simp
    next
      case (Cons x xs)
      with ab have "cs = xs @ p @ b" by simp
      with Cons.IH show ?thesis by auto
    qed
  qed
qed

lemma has_marker_iff: "has_marker line = (\<exists>a b. toLowerCase line = a @ ''error: '' @ b)"
  by (simp add: has_marker_def str_includes_iff)

lemma wait_pushed:
  assumes "wait u = Some (True, u')"
  shows "buffer u' \<noteq> []"
  using assms
proof (induction u rule: wait.induct)
  case (1 u)
  then show ?case
    by (subst (asm) (2) wait.simps) (auto simp: loop_body_def deliver_def split: if_splits list.splits)
qed

lemma next_item_shifts: "next_item s \<noteq> Throw TypeError s'"
proof (cases "get_done s \<or> buffer s \<noteq> []")
  case True
  then show ?thesis
    by (auto simp: next_item_def shift_def get_done_def split: list.splits)
next
  case False
  then show ?thesis
    by (auto simp: next_item_def shift_def split: option.splits bool.splits list.splits
        dest: wait_pushed)
qed

lemma of_char_range: "0 \<le> (of_char c :: int) \<and> (of_char c :: int) < 256"
proof -
  have "(of_char c :: int) = int (of_char c :: nat)" by (simp add: of_char_def)
  moreover have "(of_char c :: nat) < 256" by simp
  ultimately show ?thesis by simp
qed

lemma of_char_lower:
  "(of_char (lower c) :: int) =
     (if (65 \<le> (of_char c :: int) \<and> (of_char c :: int) \<le> 90)
         \<or> (192 \<le> (of_char c :: int) \<and> (of_char c :: int) \<le> 222 \<and> (of_char c :: int) \<noteq> 215)
      then of_char c + 32 else of_char c)"
proof (cases "(65 \<le> (of_char c :: int) \<and> (of_char c :: int) \<le> 90)
         \<or> (192 \<le> (of_char c :: int) \<and> (of_char c :: int) \<le> 222 \<and> (of_char c :: int) \<noteq> 215)")
  case True
  then have "((of_char c :: int) + 32) mod 256 = of_char c + 32"
    by auto
  moreover from True have "lower c = char_of ((of_char c :: int) + 32)"
    by (simp only: lower_def Let_def if_True)
  ultimately show ?thesis
    using True by (simp only: of_char_of if_True)
next
  case False
  then have "lower c = c"
    by (simp only: lower_def Let_def if_False)
  with False show ?thesis
    by (simp only: if_False)
qed

lemma lower_eq_small:
  assumes "(of_char d :: int) < 65 \<or> (90 < (of_char d :: int) \<and> (of_char d :: int) < 97)"
  shows "(lower c = d) = (c = d)"
proof -
  have "(lower c = d) = ((of_char (lower c) :: int) = of_char d)"
    by (simp only: of_char_eq_iff)
  also have "\<dots> = ((of_char c :: int) = of_char d)"
    using assms of_char_range[of c] by (simp only: of_char_lower split: if_splits) arith
  also have "\<dots> = (c = d)"
    by (simp only: of_char_eq_iff)
  finally show ?thesis .
qed

lemma lower_eq_letter:
  assumes "97 \<le> (of_char d :: int)" and "(of_char d :: int) \<le> 122"
  shows "(lower c = d) = (c = d \<or> c = char_of ((of_char d :: int) - 32))"
proof -
  have up: "(c = char_of ((of_char d :: int) - 32)) = ((of_char c :: int) = of_char d - 32)"
  proof -
    have "(c = char_of ((of_char d :: int) - 32))
        = ((of_char c :: int) = of_char (char_of ((of_char d :: int) - 32)))"
      by (metis char_of_char of_char_eq_iff)
    also have "(of_char (char_of ((of_char d :: int) - 32)) :: int) = of_char d - 32"
      using assms by (simp only: of_char_of) simp
    finally show ?thesis .
  qed
  have "(lower c = d) = ((of_char (lower c) :: int) = of_char d)"
    by (simp only: of_char_eq_iff)
  also have "\<dots> = ((of_char c :: int) = of_char d \<or> (of_char c :: int) = of_char d - 32)"
    using assms of_char_range[of c] by (simp only: of_char_lower split: if_splits) arith
  also have "\<dots> = (c = d \<or> c = char_of ((of_char d :: int) - 32))"
    by (simp only: of_char_eq_iff up)
  finally show ?thesis .
qed

lemma upper_letters:
  "char_of (69 :: int) = CHR ''E''" "char_of (82 :: int) = CHR ''R''" "char_of (79 :: int) = CHR ''O''"
  by code_simp+

lemma lower_e: "(lower c = CHR ''e'') = (c = CHR ''e'' \<or> c = CHR ''E'')"
  using lower_eq_letter[of "CHR ''e''" c] by (simp add: upper_letters)
lemma lower_r: "(lower c = CHR ''r'') = (c = CHR ''r'' \<or> c = CHR ''R'')"
  using lower_eq_letter[of "CHR ''r''" c] by (simp add: upper_letters)
lemma lower_o: "(lower c = CHR ''o'') = (c = CHR ''o'' \<or> c = CHR ''O'')"
  using lower_eq_letter[of "CHR ''o''" c] by (simp add: upper_letters)
lemma lower_colon: "(lower c = CHR '':'') = (c = CHR '':'')"
  using lower_eq_small[of "CHR '':''" c] by simp
lemma lower_space: "(lower c = CHR '' '') = (c = CHR '' '')"
  using lower_eq_small[of "CHR '' ''" c] by simp

lemma lower_marker:
  "(map lower m = ''error: '') =
     (\<exists>c1 c2 c3 c4 c5. m = [c1, c2, c3, c4, c5, CHR '':'', CHR '' '']
        \<and> (c1 = CHR ''e'' \<or> c1 = CHR ''E'') \<and> (c2 = CHR ''r'' \<or> c2 = CHR ''R'')
        \<and> (c3 = CHR ''r'' \<or> c3 = CHR ''R'') \<and> (c4 = CHR ''o'' \<or> c4 = CHR ''O'')
        \<and> (c5 = CHR ''r'' \<or> c5 = CHR ''R''))"
proof
  assume "map lower m = ''error: ''"
  then obtain c1 c2 c3 c4 c5 c6 c7 where m: "m = [c1, c2, c3, c4, c5, c6, c7]"
    and l: "lower c1 = CHR ''e''" "lower c2 = CHR ''r''" "lower c3 = CHR ''r''"
      "lower c4 = CHR ''o''" "lower c5 = CHR ''r''" "lower c6 = CHR '':''" "lower c7 = CHR '' ''"
    by (auto simp: map_eq_Cons_conv)
  from l have "c6 = CHR '':''" "c7 = CHR '' ''"
    "c1 = CHR ''e'' \<or> c1 = CHR ''E''" "c2 = CHR ''r'' \<or> c2 = CHR ''R''"
    "c3 = CHR ''r'' \<or> c3 = CHR ''R''" "c4 = CHR ''o'' \<or> c4 = CHR ''O''"
    "c5 = CHR ''r'' \<or> c5 = CHR ''R''"
    by (simp_all only: lower_e lower_r lower_o lower_colon lower_space)
  with m show "\<exists>c1 c2 c3 c4 c5. m = [c1, c2, c3, c4, c5, CHR '':'', CHR '' '']
        \<and> (c1 = CHR ''e'' \<or> c1 = CHR ''E'') \<and> (c2 = CHR ''r'' \<or> c2 = CHR ''R'')
        \<and> (c3 = CHR ''r'' \<or> c3 = CHR ''R'') \<and> (c4 = CHR ''o'' \<or> c4 = CHR ''O'')
        \<and> (c5 = CHR ''r'' \<or> c5 = CHR ''R'')"
    by blast
next
  assume "\<exists>c1 c2 c3 c4 c5. m = [c1, c2, c3, c4, c5, CHR '':'', CHR '' '']
        \<and> (c1 = CHR ''e'' \<or> c1 = CHR ''E'') \<and> (c2 = CHR ''r'' \<or> c2 = CHR ''R'')
        \<and> (c3 = CHR ''r'' \<or> c3 = CHR ''R'') \<and> (c4 = CHR ''o'' \<or> c4 = CHR ''O'')
        \<and> (c5 = CHR ''r'' \<or> c5 = CHR ''R'')"
  then obtain c1 c2 c3 c4 c5 where m: "m = [c1, c2, c3, c4, c5, CHR '':'', CHR '' '']"
    and "c1 = CHR ''e'' \<or> c1 = CHR ''E''" "c2 = CHR ''r'' \<or> c2 = CHR ''R''"
    "c3 = CHR ''r'' \<or> c3 = CHR ''R''" "c4 = CHR ''o'' \<or> c4 = CHR ''O''"
    "c5 = CHR ''r'' \<or> c5 = CHR ''R''"
    by blast
  then have "lower c1 = CHR ''e''" "lower c2 = CHR ''r''" "lower c3 = CHR ''r''"
    "lower c4 = CHR ''o''" "lower c5 = CHR ''r''"
    by (simp_all only: lower_e lower_r lower_o)
  moreover have "lower (CHR '':'') = CHR '':''" "lower (CHR '' '') = CHR '' ''"
    by (simp_all only: lower_colon lower_space)
  ultimately show "map lower m = ''error: ''"
    unfolding m by (simp only: list.map)
qed

lemma map_lower_append:
  assumes "map lower l = a @ m0 @ b"
  shows "\<exists>a0 m b0. l = a0 @ m @ b0 \<and> map lower m = m0"
proof -
  from assms obtain us vs where 1: "l = us @ vs" and "m0 @ b = map lower vs"
    unfolding map_eq_append_conv by blast
  then have "map lower vs = m0 @ b" by simp
  then obtain m b0 where "vs = m @ b0" "m0 = map lower m"
    unfolding map_eq_append_conv by blast
  with 1 show ?thesis by blast
qed

lemma toLowerCase_marker:
  "(\<exists>a b. toLowerCase l = a @ ''error: '' @ b) =
     (\<exists>a b c1 c2 c3 c4 c5. l = a @ [c1, c2, c3, c4, c5, CHR '':'', CHR '' ''] @ b
        \<and> (c1 = CHR ''e'' \<or> c1 = CHR ''E'') \<and> (c2 = CHR ''r'' \<or> c2 = CHR ''R'')
        \<and> (c3 = CHR ''r'' \<or> c3 = CHR ''R'') \<and> (c4 = CHR ''o'' \<or> c4 = CHR ''O'')
        \<and> (c5 = CHR ''r'' \<or> c5 = CHR ''R''))"
proof -
  have "(\<exists>a b. toLowerCase l = a @ ''error: '' @ b)
      = (\<exists>a m b. l = a @ m @ b \<and> map lower m = ''error: '')"
  proof
    assume "\<exists>a b. toLowerCase l = a @ ''error: '' @ b"
    then obtain a b where "map lower l = a @ ''error: '' @ b"
      unfolding toLowerCase_def by (elim exE)
    from map_lower_append[OF this] show "\<exists>a m b. l = a @ m @ b \<and> map lower m = ''error: ''" .
  next
    assume "\<exists>a m b. l = a @ m @ b \<and> map lower m = ''error: ''"
    then obtain a m b where l: "l = a @ m @ b" and m: "map lower m = ''error: ''"
      by (elim exE conjE)
    have "toLowerCase l = map lower a @ map lower m @ map lower b"
      unfolding toLowerCase_def l by (simp only: map_append)
    then have "toLowerCase l = map lower a @ ''error: '' @ map lower b"
      by (simp only: m)
    then show "\<exists>a b. toLowerCase l = a @ ''error: '' @ b"
      by (intro exI)
  qed
  also have "\<dots> =
     (\<exists>a m b. l = a @ m @ b \<and>
        (\<exists>c1 c2 c3 c4 c5. m = [c1, c2, c3, c4, c5, CHR '':'', CHR '' '']
        \<and> (c1 = CHR ''e'' \<or> c1 = CHR ''E'') \<and> (c2 = CHR ''r'' \<or> c2 = CHR ''R'')
        \<and> (c3 = CHR ''r'' \<or> c3 = CHR ''R'') \<and> (c4 = CHR ''o'' \<or> c4 = CHR ''O'')
        \<and> (c5 = CHR ''r'' \<or> c5 = CHR ''R'')))"
    by (simp only: lower_marker)
  also have "\<dots> =
     (\<exists>a b c1 c2 c3 c4 c5. l = a @ [c1, c2, c3, c4, c5, CHR '':'', CHR '' ''] @ b
        \<and> (c1 = CHR ''e'' \<or> c1 = CHR ''E'') \<and> (c2 = CHR ''r'' \<or> c2 = CHR ''R'')
        \<and> (c3 = CHR ''r'' \<or> c3 = CHR ''R'') \<and> (c4 = CHR ''o'' \<or> c4 = CHR ''O'')
        \<and> (c5 = CHR ''r'' \<or> c5 = CHR ''R''))"
    by (rule iffI; elim exE conjE; hypsubst; (intro exI conjI)?; (rule refl | assumption)+)
  finally show ?thesis .
qed

lemma has_marker_letters:
  "has_marker l =
     (\<exists>a b c1 c2 c3 c4 c5. l = a @ [c1, c2, c3, c4, c5, CHR '':'', CHR '' ''] @ b
        \<and> (c1 = CHR ''e'' \<or> c1 = CHR ''E'') \<and> (c2 = CHR ''r'' \<or> c2 = CHR ''R'')
        \<and> (c3 = CHR ''r'' \<or> c3 = CHR ''R'') \<and> (c4 = CHR ''o'' \<or> c4 = CHR ''O'')
        \<and> (c5 = CHR ''r'' \<or> c5 = CHR ''R''))"
  unfolding has_marker_iff by (rule toLowerCase_marker)

lemma list_ex_has_marker_letters:
  "list_ex has_marker ls =
     (\<exists>l \<in> set ls.
        \<exists>a b c1 c2 c3 c4 c5. l = a @ [c1, c2, c3, c4, c5, CHR '':'', CHR '' ''] @ b
        \<and> (c1 = CHR ''e'' \<or> c1 = CHR ''E'') \<and> (c2 = CHR ''r'' \<or> c2 = CHR ''R'')
        \<and> (c3 = CHR ''r'' \<or> c3 = CHR ''R'') \<and> (c4 = CHR ''o'' \<or> c4 = CHR ''O'')
        \<and> (c5 = CHR ''r'' \<or> c5 = CHR ''R''))"
proof -
  have "list_ex has_marker ls = (\<exists>l \<in> set ls. has_marker l)"
    by (simp add: list_ex_iff)
  also have "\<dots> =
     (\<exists>l \<in> set ls.
        \<exists>a b c1 c2 c3 c4 c5. l = a @ [c1, c2, c3, c4, c5, CHR '':'', CHR '' ''] @ b
        \<and> (c1 = CHR ''e'' \<or> c1 = CHR ''E'') \<and> (c2 = CHR ''r'' \<or> c2 = CHR ''R'')
        \<and> (c3 = CHR ''r'' \<or> c3 = CHR ''R'') \<and> (c4 = CHR ''o'' \<or> c4 = CHR ''O'')
        \<and> (c5 = CHR ''r'' \<or> c5 = CHR ''R''))"
    by (rule bex_cong[OF refl]) (rule has_marker_letters)
  finally show ?thesis .
qed

section \<open>The stream\<close>

text \<open>
  C8. On a stream with an item in its buffer, two calls of \<open>peek\<close> in a row, with no
  \<open>next\<close> between them, both return the oldest buffered item, and both leave the state
  of the stream as it was: nothing is taken out of the buffer, nothing is pulled.
\<close>

theorem peek_twice:
  assumes "buffer s = x # xs"
  shows "(case peek s of
            Return a s1 \<Rightarrow>
              (case peek s1 of
                 Return b s2 \<Rightarrow> a = Some x \<and> b = Some x \<and> s1 = s \<and> s2 = s
               | _ \<Rightarrow> False)
          | _ \<Rightarrow> False)"
  using assms by (simp add: peek_def get_done_def first_def)

theorem peek_twice_witness:
  "buffer \<lparr>done_flag = False, reading = True, loops = 1, buffer = [''a'', ''b''], iter_raw = [''c''],
           transformValue = split_on (CHR 0x0A)\<rparr> = ''a'' # [''b'']
   \<and> peek \<lparr>done_flag = False, reading = True, loops = 1, buffer = [''a'', ''b''], iter_raw = [''c''],
            transformValue = split_on (CHR 0x0A)\<rparr>
       = Return (Some ''a'')
           \<lparr>done_flag = False, reading = True, loops = 1, buffer = [''a'', ''b''], iter_raw = [''c''],
            transformValue = split_on (CHR 0x0A)\<rparr>"
  using peek_twice
    [of "\<lparr>done_flag = False, reading = True, loops = 1, buffer = [''a'', ''b''], iter_raw = [''c''],
          transformValue = split_on (CHR 0x0A)\<rparr>" "''a''" "[''b'']"]
  by (simp split: outcome.splits)

text \<open>
  C9. In every state a stream can be in: when \<open>done\<close> holds, \<open>next\<close> throws the error
  \<open>No more items to consume\<close> and leaves the stream as it is; and \<open>done\<close> holds only
  when the loop has seen the underlying iterator complete, that iterator has nothing
  left to yield, and the buffer is empty. On a stream that is not paused and has no
  item left to hand out, \<open>next\<close> throws that error whether the completion was seen
  before the call or arrives while the call waits, and \<open>done\<close> holds afterwards.
\<close>

theorem next_item_when_done:
  assumes "reachable s"
  shows "(get_done s \<longrightarrow> next_item s = Throw NoMoreItems s)
       \<and> (get_done s \<longrightarrow> done_flag s \<and> iter_raw s = [] \<and> buffer s = [])
       \<and> (streaming s \<and> pending s = []
            \<longrightarrow> (\<exists>s'. next_item s = Throw NoMoreItems s' \<and> get_done s'))"
proof -
  have "\<exists>s'. next_item s = Throw NoMoreItems s' \<and> get_done s'"
    if "streaming s" "pending s = []"
    using next_item_streaming_Nil[OF that] by blast
  with reachable_done[OF assms] show ?thesis
    by (auto simp: next_item_def get_done_def)
qed

theorem next_item_when_done_witness:
  "reachable (loop_body (LazyIter_new [] (split_on (CHR 0x0A))))
   \<and> get_done (loop_body (LazyIter_new [] (split_on (CHR 0x0A))))
   \<and> streaming (loop_body (LazyIter_new [] (split_on (CHR 0x0A))))
   \<and> pending (loop_body (LazyIter_new [] (split_on (CHR 0x0A)))) = []
   \<and> next_item (loop_body (LazyIter_new [] (split_on (CHR 0x0A))))
       = Throw NoMoreItems (loop_body (LazyIter_new [] (split_on (CHR 0x0A))))"
proof -
  have r: "reachable (loop_body (LazyIter_new [] (split_on (CHR 0x0A))))"
    by (rule reachable.looped[OF reachable.created]) (simp add: LazyIter_new_def)
  have d: "get_done (loop_body (LazyIter_new [] (split_on (CHR 0x0A))))"
    "streaming (loop_body (LazyIter_new [] (split_on (CHR 0x0A))))"
    "pending (loop_body (LazyIter_new [] (split_on (CHR 0x0A)))) = []"
    by (simp_all add: get_done_def streaming_def pending_def loop_body_def deliver_def
        LazyIter_new_def)
  from next_item_when_done[OF r] r d show ?thesis
    by blast
qed

section \<open>Records and their names\<close>

text \<open>
  C10. For a record whose \<open>name\<close> is present but falsy (the empty string, say),
  \<open>handleLog\<close> pushes the record without its \<open>name\<close> and pushes no warning: the
  warning depends on the truthiness of the value, not on the presence of the key.
\<close>

theorem handleLog_falsy_name:
  assumes "has entry ''name''" and "\<not> truthy (field entry ''name'')"
  shows "handleLog now entry batch0 = batch0 @ [omit [''name''] entry]
         \<and> \<not> has (omit [''name''] entry) ''name''"
  using assms by (simp add: handleLog_plain has_omit)

theorem handleLog_falsy_name_witness:
  "has [(''datetime'', JStr ''2023-07-22T04:26:40.000Z''), (''level'', JStr ''info''),
        (''name'', JStr [])] ''name''
   \<and> \<not> truthy (field [(''datetime'', JStr ''2023-07-22T04:26:40.000Z''),
                       (''level'', JStr ''info''), (''name'', JStr [])] ''name'')
   \<and> handleLog 0 [(''datetime'', JStr ''2023-07-22T04:26:40.000Z''), (''level'', JStr ''info''),
                  (''name'', JStr [])] []
       = [[(''datetime'', JStr ''2023-07-22T04:26:40.000Z''), (''level'', JStr ''info'')]]"
  using handleLog_falsy_name
    [of "[(''datetime'', JStr ''2023-07-22T04:26:40.000Z''), (''level'', JStr ''info''),
          (''name'', JStr [])]" 0 "[]"]
  by (simp add: has_def field_def omit_def)

section \<open>Lines\<close>

text \<open>
  C6. For a line that parses as an object without \<open>time\<close>, or with \<open>time\<close> and
  without \<open>level\<close>, \<open>handleLine\<close> pushes exactly one record: at level \<open>warn\<close>, with a
  message that names the missing field (\<open>time\<close> when both are missing) and with the
  parsed object under \<open>log\<close>. It pushes nothing else and leaves the stream alone.
\<close>

theorem missing_field_warning:
  assumes "JSON_parse rt line = Some (JObj fs)"
    and "\<not> has fs ''time'' \<or> \<not> has fs ''level''"
  shows "handleLine rt now line g =
           Return ()
             (g\<lparr>batch := batch g @
                   [[(''datetime'', JStr (toISOString now)),
                     (''level'', JStr ''warn''),
                     (''message'',
                      JStr (''Invalid log line, missing ''
                            @ (if has fs ''time'' then ''level'' else ''time'') @ '' field'')),
                     (''log'', JObj fs)]]\<rparr>)"
  using assms
  by (auto simp: handleLine_def try_block_def handleInvalid_def invalid_log_def handleLog_plain
      field_def omit_def)

theorem missing_field_warning_witness:
  "JSON_parse example_runtime ''{\"level\":30}'' = Some (JObj [(''level'', JNum 30)])
   \<and> \<not> has [(''level'', JNum 30)] ''time''
   \<and> handleLine example_runtime 0 ''{\"level\":30}''
         \<lparr>batch = [], iter = LazyIter_new [] (split_on (CHR 0x0A))\<rparr>
       = Return ()
           \<lparr>batch = [[(''datetime'', JStr (toISOString 0)),
                      (''level'', JStr ''warn''),
                      (''message'', JStr ''Invalid log line, missing time field''),
                      (''log'', JObj [(''level'', JNum 30)])]],
            iter = LazyIter_new [] (split_on (CHR 0x0A))\<rparr>"
proof -
  have "parse_json ''{\"level\":30}'' = Some (JObj [(''level'', JNum 30)])"
    by code_simp
  then have p: "JSON_parse example_runtime ''{\"level\":30}'' = Some (JObj [(''level'', JNum 30)])"
    by (simp add: example_runtime_def)
  have m: "\<not> has [(''level'', JNum 30)] ''time''"
    by (simp add: has_def)
  from missing_field_warning[OF p disjI1[OF m], of 0 "\<lparr>batch = [], iter = LazyIter_new [] (split_on (CHR 0x0A))\<rparr>"]
    p m show ?thesis
    by (simp add: has_def)
qed

text \<open>
  C5, as the code has it. For a line that parses as an object whose \<open>time\<close> is a
  number within the range of dates and whose \<open>level\<close> is a number, \<open>handleLine\<close>
  pushes one record for the line, after a warning if the object has a truthy \<open>name\<close>.
  The record has the level that the table gives (60 fatal, 50 error, 40 warn, 30 info,
  20 debug, 10 trace, anything else unknown), \<open>msg\<close> under \<open>message\<close>, \<open>err\<close> under
  \<open>error\<close>, and the ISO text of \<open>time\<close> under \<open>datetime\<close>. It has no \<open>name\<close>. Every
  property of the object other than \<open>msg\<close>, \<open>err\<close>, \<open>time\<close>, \<open>level\<close>, \<open>message\<close>,
  \<open>error\<close>, \<open>datetime\<close> and \<open>name\<close> is in the record unchanged, and the record has
  no further property.
\<close>

theorem structured_line_record:
  assumes "JSON_parse rt line = Some (JObj fs)"
    and "field fs ''time'' = JNum tq" and "TimeClip tq = Some t"
    and "field fs ''level'' = JNum lv"
  shows "(let r = omit [''name''] (final_log fs t (table_level lv)) in
          handleLine rt now line g =
            Return ()
              (g\<lparr>batch := batch g
                    @ (if truthy (field fs ''name'') then [name_warning now (final_log fs t (table_level lv))] else [])
                    @ [r]\<rparr>)
          \<and> field r ''level'' =
              JStr (if lv = 60 then ''fatal'' else if lv = 50 then ''error''
                    else if lv = 40 then ''warn'' else if lv = 30 then ''info''
                    else if lv = 20 then ''debug'' else if lv = 10 then ''trace''
                    else ''unknown'')
          \<and> field r ''message'' = field fs ''msg''
          \<and> field r ''error'' = field fs ''err''
          \<and> field r ''datetime'' = JStr (toISOString t)
          \<and> \<not> has r ''name'' \<and> \<not> has r ''msg'' \<and> \<not> has r ''err'' \<and> \<not> has r ''time''
          \<and> (\<forall>k. k \<notin> set [''msg'', ''err'', ''time'', ''level'', ''message'', ''error'',
                              ''datetime'', ''name'']
                \<longrightarrow> map_of r k = map_of fs k))"
proof -
  have lvl: "coalesce (table_level lv) (JStr ''unknown'') =
      JStr (if lv = 60 then ''fatal'' else if lv = 50 then ''error''
            else if lv = 40 then ''warn'' else if lv = 30 then ''info''
            else if lv = 20 then ''debug'' else if lv = 10 then ''trace''
            else ''unknown'')"
    by (simp add: LEVELS_MAP_def table_level_def coalesce_def)
  have others: "map_of (omit [''name''] (final_log fs t (table_level lv))) k = map_of fs k"
    if "k \<notin> set [''msg'', ''err'', ''time'', ''level'', ''message'', ''error'', ''datetime'', ''name'']"
    for k
    using that by (simp add: final_log_def map_of_omit map_of_put)
  show ?thesis
    unfolding Let_def handleLine_structured[OF assms]
    using lvl others assms(4)
    by (simp add: field_omit has_omit final_log_def field_put has_put)
qed

theorem structured_line_record_witness:
  "JSON_parse example_runtime ''{\"time\":1690000000000,\"level\":50,\"msg\":\"boom\"}''
     = Some (JObj [(''time'', JNum 1690000000000), (''level'', JNum 50), (''msg'', JStr ''boom'')])
   \<and> field [(''time'', JNum 1690000000000), (''level'', JNum 50), (''msg'', JStr ''boom'')] ''time''
       = JNum 1690000000000
   \<and> TimeClip 1690000000000 = Some 1690000000000
   \<and> field [(''time'', JNum 1690000000000), (''level'', JNum 50), (''msg'', JStr ''boom'')] ''level''
       = JNum 50
   \<and> handleLine example_runtime 0 ''{\"time\":1690000000000,\"level\":50,\"msg\":\"boom\"}''
         \<lparr>batch = [], iter = LazyIter_new [] (split_on (CHR 0x0A))\<rparr>
       = Return ()
           \<lparr>batch = [[(''message'', JStr ''boom''),
                      (''error'', JUndefined),
                      (''datetime'', JStr ''2023-07-22T04:26:40.000Z''),
                      (''level'', JStr ''error'')]],
            iter = LazyIter_new [] (split_on (CHR 0x0A))\<rparr>"
proof -
  have p: "JSON_parse example_runtime ''{\"time\":1690000000000,\"level\":50,\"msg\":\"boom\"}''
     = Some (JObj [(''time'', JNum 1690000000000), (''level'', JNum 50), (''msg'', JStr ''boom'')])"
    by (simp add: example_runtime_def parse_json_example)
  have t: "field [(''time'', JNum 1690000000000), (''level'', JNum 50), (''msg'', JStr ''boom'')] ''time''
       = JNum 1690000000000"
    by (simp add: field_def)
  have c: "TimeClip 1690000000000 = Some 1690000000000"
    by (simp add: TimeClip_def)
  have l: "field [(''time'', JNum 1690000000000), (''level'', JNum 50), (''msg'', JStr ''boom'')] ''level''
       = JNum 50"
    by (simp add: field_def)
  have r: "omit [''name'']
        (final_log
           [(''time'', JNum 1690000000000), (''level'', JNum 50), (''msg'', JStr ''boom'')]
           1690000000000 (table_level 50))
      = [(''message'', JStr ''boom''), (''error'', JUndefined),
         (''datetime'', JStr ''2023-07-22T04:26:40.000Z''), (''level'', JStr ''error'')]"
    by (simp add: final_log_def omit_def put_def field_def toISOString_example LEVELS_MAP_def
        table_level_def coalesce_def)
  from structured_line_record[OF p t c l, of 0
      "\<lparr>batch = [], iter = LazyIter_new [] (split_on (CHR 0x0A))\<rparr>"]
    p t c l show ?thesis
    by (simp add: Let_def r field_def)
qed

text \<open>
  C5 as stated fails in two ways. The object of the first line has a \<open>name\<close> and a
  \<open>message\<close>; the record pushed for the line has neither value: \<open>name\<close> is gone,
  and \<open>message\<close> holds the absent \<open>msg\<close>. The object of the second line has a
  \<open>level\<close> and a \<open>time\<close>, a number beyond the range of dates; \<open>toISOString\<close> throws
  on it, the line is taken for the start of a crash, and no record is pushed at all.
\<close>

theorem other_properties_counterexample:
  "JSON_parse example_runtime ''{\"time\":0,\"level\":30,\"name\":\"svc\",\"message\":\"hi\"}''
     = Some (JObj [(''time'', JNum 0), (''level'', JNum 30), (''name'', JStr ''svc''),
                   (''message'', JStr ''hi'')])
   \<and> handleLine example_runtime 5 ''{\"time\":0,\"level\":30,\"name\":\"svc\",\"message\":\"hi\"}''
         \<lparr>batch = [], iter = LazyIter_new [] (split_on (CHR 0x0A))\<rparr>
       = Return ()
           \<lparr>batch =
              [[(''datetime'', JStr ''1970-01-01T00:00:00.005Z''),
                (''level'', JStr ''warn''),
                (''message'',
                 JStr ''Log has a name field, but that should be handled by the transport alone, ignoring''),
                (''log'',
                 JObj [(''name'', JStr ''svc''), (''message'', JUndefined), (''error'', JUndefined),
                       (''datetime'', JStr ''1970-01-01T00:00:00.000Z''),
                       (''level'', JStr ''info'')])],
               [(''message'', JUndefined), (''error'', JUndefined),
                (''datetime'', JStr ''1970-01-01T00:00:00.000Z''), (''level'', JStr ''info'')]],
            iter = LazyIter_new [] (split_on (CHR 0x0A))\<rparr>
   \<and> JSON_parse example_runtime ''{\"time\":9000000000000000,\"level\":30}''
       = Some (JObj [(''time'', JNum 9000000000000000), (''level'', JNum 30)])
   \<and> handleLine example_runtime 5 ''{\"time\":9000000000000000,\"level\":30}''
         \<lparr>batch = [], iter = LazyIter_new [] (split_on (CHR 0x0A))\<rparr>
       = Return () \<lparr>batch = [], iter = loop_body (LazyIter_new [] (split_on (CHR 0x0A)))\<rparr>"
proof -
  have p: "parse_json ''{\"time\":0,\"level\":30,\"name\":\"svc\",\"message\":\"hi\"}''
     = Some (JObj [(''time'', JNum 0), (''level'', JNum 30), (''name'', JStr ''svc''),
                   (''message'', JStr ''hi'')])"
    by code_simp
  have t: "try_block example_runtime 5
        ''{\"time\":0,\"level\":30,\"name\":\"svc\",\"message\":\"hi\"}'' []
      = Inr [[(''datetime'', JStr ''1970-01-01T00:00:00.005Z''),
              (''level'', JStr ''warn''),
              (''message'',
               JStr ''Log has a name field, but that should be handled by the transport alone, ignoring''),
              (''log'',
               JObj [(''name'', JStr ''svc''), (''message'', JUndefined), (''error'', JUndefined),
                     (''datetime'', JStr ''1970-01-01T00:00:00.000Z''),
                     (''level'', JStr ''info'')])],
             [(''message'', JUndefined), (''error'', JUndefined),
              (''datetime'', JStr ''1970-01-01T00:00:00.000Z''), (''level'', JStr ''info'')]]"
    by code_simp
  have p2: "parse_json ''{\"time\":9000000000000000,\"level\":30}''
       = Some (JObj [(''time'', JNum 9000000000000000), (''level'', JNum 30)])"
    by code_simp
  have t2: "try_block example_runtime 5 ''{\"time\":9000000000000000,\"level\":30}'' []
      = Inl RangeError"
    by code_simp
  have m2: "\<not> has_marker ''{\"time\":9000000000000000,\"level\":30}''"
    by code_simp
  have s2: "scan example_runtime [''{\"time\":9000000000000000,\"level\":30}'']
        (LazyIter_new [] (split_on (CHR 0x0A)))
      = Return [''{\"time\":9000000000000000,\"level\":30}'']
          (loop_body (LazyIter_new [] (split_on (CHR 0x0A))))"
    by (subst scan.simps)
      (simp add: peekAnd_def peek_def get_done_def first_def wait.simps LazyIter_new_def
        loop_body_def deliver_def)
  have "JSON_parse example_runtime = parse_json"
    by (simp add: example_runtime_def)
  with p t p2 t2 m2 s2 show ?thesis
    by (simp add: handleLine_def)
qed

section \<open>Crash output\<close>

text \<open>
  C4, as the code has it. On a stream that has not been paused, the scan of the
  \<open>catch\<close> block takes a peeked line off the stream as one more part if and only if
  \<open>JSON.parse\<close> throws on it: the parts it adds are the longest run of such lines at
  the head of the stream, and the stream is left at the first line that parses as
  JSON of any kind, or at its end.
\<close>

theorem scan_takes_unparseable:
  assumes "streaming s"
  shows "\<exists>s'. scan rt stackParts s
            = Return (stackParts @ takeWhile (\<lambda>l. JSON_parse rt l = None) (pending s)) s'
          \<and> pending s' = dropWhile (\<lambda>l. JSON_parse rt l = None) (pending s)"
  using scan_streaming[OF assms, of rt stackParts]
  by (auto simp: takeWhile_unparseable dropWhile_unparseable)

theorem scan_takes_unparseable_witness:
  "streaming \<lparr>done_flag = False, reading = True, loops = 1, buffer = [''    at foo.js:1:1'', ''{}'', ''x''],
              iter_raw = [], transformValue = split_on (CHR 0x0A)\<rparr>
   \<and> (\<exists>s'. scan example_runtime [''TypeError: oops'']
              \<lparr>done_flag = False, reading = True, loops = 1, buffer = [''    at foo.js:1:1'', ''{}'', ''x''],
               iter_raw = [], transformValue = split_on (CHR 0x0A)\<rparr>
             = Return [''TypeError: oops'', ''    at foo.js:1:1''] s'
           \<and> pending s' = [''{}'', ''x''])"
proof -
  have s: "streaming \<lparr>done_flag = False, reading = True, loops = 1,
              buffer = [''    at foo.js:1:1'', ''{}'', ''x''],
              iter_raw = [], transformValue = split_on (CHR 0x0A)\<rparr>"
    by (simp add: streaming_def)
  have "parse_json ''    at foo.js:1:1'' = None" and "parse_json ''{}'' = Some (JObj [])"
    by code_simp+
  then have p: "JSON_parse example_runtime ''    at foo.js:1:1'' = None"
    "JSON_parse example_runtime ''{}'' = Some (JObj [])"
    by (simp_all add: example_runtime_def)
  from scan_takes_unparseable[OF s, of example_runtime "[''TypeError: oops'']"] s p
  show ?thesis
    by (simp add: pending_def)
qed

text \<open>
  C4 as stated fails on a line that is JSON but no structured record: the empty
  object has neither \<open>level\<close> nor \<open>time\<close>, and the scan stops in front of it and
  leaves it on the stream.
\<close>

theorem scan_stops_at_any_json_counterexample:
  "JSON_parse example_runtime ''{}'' = Some (JObj [])
   \<and> scan example_runtime [''TypeError: oops'']
        \<lparr>done_flag = False, reading = True, loops = 1, buffer = [''{}''], iter_raw = [],
         transformValue = split_on (CHR 0x0A)\<rparr>
      = Return [''TypeError: oops'']
          \<lparr>done_flag = False, reading = True, loops = 1, buffer = [''{}''], iter_raw = [],
           transformValue = split_on (CHR 0x0A)\<rparr>"
proof -
  have "parse_json ''{}'' = Some (JObj [])"
    by code_simp
  then have p: "JSON_parse example_runtime ''{}'' = Some (JObj [])"
    by (simp add: example_runtime_def)
  then show ?thesis
    by (subst scan.simps) (simp add: peekAnd_def peek_def get_done_def first_def isValidJson_def)
qed

text \<open>
  C3, as the code has it. The stream has not been paused and holds a run of one or
  more lines on which \<open>JSON.parse\<close> throws, then a line that parses, and the first
  line of the run is the item that a pass of the driver takes: no earlier line has
  taken the run into its own \<open>catch\<close> block. That pass takes the whole run and no
  more. If no line of the run contains the letters of \<open>error\<close> in either case followed
  by a colon and a space, it pushes nothing; otherwise it pushes exactly one record, at
  level \<open>fatal\<close>, whose \<open>error.stack\<close> is the lines of the run joined by newlines in
  their order. The line that parses is still the next item of the stream, and the next
  pass of the driver hands it to \<open>handleLine\<close> on its own; if it is an object with a
  numeric \<open>level\<close> and a numeric \<open>time\<close> in the range of dates, that pass pushes the
  record of the line.
\<close>

theorem crash_run:
  assumes "streaming (iter g)"
    and "pending (iter g) = (line # lines) @ valid # rest"
    and "\<forall>l \<in> set (line # lines). JSON_parse rt l = None"
    and "JSON_parse rt valid \<noteq> None"
  shows "\<exists>g' s'.
           drive rt now g = Some g'
         \<and> batch g' = batch g @
             (if \<exists>l \<in> set (line # lines).
                   \<exists>a b c1 c2 c3 c4 c5. l = a @ [c1, c2, c3, c4, c5, CHR '':'', CHR '' ''] @ b
                   \<and> (c1 = CHR ''e'' \<or> c1 = CHR ''E'') \<and> (c2 = CHR ''r'' \<or> c2 = CHR ''R'')
                   \<and> (c3 = CHR ''r'' \<or> c3 = CHR ''R'') \<and> (c4 = CHR ''o'' \<or> c4 = CHR ''O'')
                   \<and> (c5 = CHR ''r'' \<or> c5 = CHR ''R'')
              then [[(''level'', JStr ''fatal''),
                     (''datetime'', JStr (toISOString now)),
                     (''message'', JStr ''[unable to infer due to this being a hard crash]''),
                     (''error'',
                      JObj [(''type'', JStr ''[unable to infer due to this being a hard crash]''),
                            (''message'', JStr ''[unable to infer due to this being a hard crash]''),
                            (''stack'', JStr (join [CHR 0x0A] (line # lines)))])]]
              else [])
         \<and> streaming (iter g') \<and> pending (iter g') = valid # rest
         \<and> next_item (iter g') = Return valid s' \<and> pending s' = rest
         \<and> drive rt now' g' =
             (case handleLine rt now' valid (g'\<lparr>iter := s'\<rparr>) of
                Pending \<Rightarrow> None
              | Throw e g'' \<Rightarrow> Some g''
              | Return u g'' \<Rightarrow> Some g'')
         \<and> (\<forall>fs tq t lv.
               JSON_parse rt valid = Some (JObj fs) \<and> field fs ''time'' = JNum tq
               \<and> TimeClip tq = Some t \<and> field fs ''level'' = JNum lv
               \<longrightarrow> drive rt now' g' =
                     Some (g'\<lparr>batch := batch g'
                                @ (if truthy (field fs ''name'')
                                   then [name_warning now' (final_log fs t (table_level lv))] else [])
                                @ [omit [''name''] (final_log fs t (table_level lv))],
                              iter := s'\<rparr>))"
proof -
  let ?bad = "\<lambda>l. \<not> isValidJson rt l"
  from drive_Cons[OF assms(1), of line "lines @ valid # rest" rt now] assms(2)
  obtain s1 where s1: "next_item (iter g) = Return line s1" "streaming s1"
    "pending s1 = lines @ valid # rest"
    and d1: "drive rt now g =
      (case handleLine rt now line (g\<lparr>iter := s1\<rparr>) of
         Pending \<Rightarrow> None | Throw e g' \<Rightarrow> Some g' | Return u g' \<Rightarrow> Some g')"
    by auto
  have tw: "takeWhile ?bad (lines @ valid # rest) = lines"
    and dw: "dropWhile ?bad (lines @ valid # rest) = valid # rest"
    using assms(3,4) by (auto simp: not_isValidJson takeWhile_append2 dropWhile_append2)
  from assms(3) have unparseable: "JSON_parse rt line = None" by simp
  from handleLine_unparseable[OF unparseable, of "g\<lparr>iter := s1\<rparr>" lines "valid # rest" now]
    s1(2,3) tw dw
  obtain s2 where h: "handleLine rt now line (g\<lparr>iter := s1\<rparr>) =
      Return ()
        (g\<lparr>batch := batch g @
              (if list_ex has_marker (line # lines) then [crash_log now (line # lines)] else []),
           iter := s2\<rparr>)"
    and s2: "streaming s2" "pending s2 = valid # rest"
    by auto
  define g' where "g' = g\<lparr>batch := batch g @
      (if list_ex has_marker (line # lines) then [crash_log now (line # lines)] else []),
      iter := s2\<rparr>"
  have g': "drive rt now g = Some g'"
    using d1 h by (simp add: g'_def)
  have it: "iter g' = s2" by (simp add: g'_def)
  from drive_Cons[of g' valid rest rt now'] s2 it
  obtain s3 where s3: "next_item (iter g') = Return valid s3" "pending s3 = rest"
    and d2: "drive rt now' g' =
      (case handleLine rt now' valid (g'\<lparr>iter := s3\<rparr>) of
         Pending \<Rightarrow> None | Throw e g'' \<Rightarrow> Some g'' | Return u g'' \<Rightarrow> Some g'')"
    by auto
  have own: "drive rt now' g' =
      Some (g'\<lparr>batch := batch g'
                 @ (if truthy (field fs ''name'') then [name_warning now' (final_log fs t (table_level lv))] else [])
                 @ [omit [''name''] (final_log fs t (table_level lv))],
               iter := s3\<rparr>)"
    if "JSON_parse rt valid = Some (JObj fs)" "field fs ''time'' = JNum tq"
      "TimeClip tq = Some t" "field fs ''level'' = JNum lv" for fs tq t lv
    unfolding d2 handleLine_structured[OF that] by simp
  have b0: "batch g' = batch g @
      (if list_ex has_marker (line # lines)
       then [[(''level'', JStr ''fatal''),
              (''datetime'', JStr (toISOString now)),
              (''message'', JStr ''[unable to infer due to this being a hard crash]''),
              (''error'',
               JObj [(''type'', JStr ''[unable to infer due to this being a hard crash]''),
                     (''message'', JStr ''[unable to infer due to this being a hard crash]''),
                     (''stack'', JStr (join [CHR 0x0A] (line # lines)))])]]
       else [])"
    by (simp add: g'_def crash_log_def crash_message_def)
  have b: "batch g' = batch g @
      (if \<exists>l \<in> set (line # lines).
            \<exists>a b c1 c2 c3 c4 c5. l = a @ [c1, c2, c3, c4, c5, CHR '':'', CHR '' ''] @ b
            \<and> (c1 = CHR ''e'' \<or> c1 = CHR ''E'') \<and> (c2 = CHR ''r'' \<or> c2 = CHR ''R'')
            \<and> (c3 = CHR ''r'' \<or> c3 = CHR ''R'') \<and> (c4 = CHR ''o'' \<or> c4 = CHR ''O'')
            \<and> (c5 = CHR ''r'' \<or> c5 = CHR ''R'')
       then [[(''level'', JStr ''fatal''),
              (''datetime'', JStr (toISOString now)),
              (''message'', JStr ''[unable to infer due to this being a hard crash]''),
              (''error'',
               JObj [(''type'', JStr ''[unable to infer due to this being a hard crash]''),
                     (''message'', JStr ''[unable to infer due to this being a hard crash]''),
                     (''stack'', JStr (join [CHR 0x0A] (line # lines)))])]]
       else [])"
    using b0 unfolding list_ex_has_marker_letters .
  have s2': "streaming (iter g')" "pending (iter g') = valid # rest"
    using s2 it by simp_all
  from own have own': "\<forall>fs tq t lv.
      JSON_parse rt valid = Some (JObj fs) \<and> field fs ''time'' = JNum tq
      \<and> TimeClip tq = Some t \<and> field fs ''level'' = JNum lv
      \<longrightarrow> drive rt now' g' =
            Some (g'\<lparr>batch := batch g'
                       @ (if truthy (field fs ''name'')
                          then [name_warning now' (final_log fs t (table_level lv))] else [])
                       @ [omit [''name''] (final_log fs t (table_level lv))],
                     iter := s3\<rparr>)"
    by blast
  show ?thesis
    by (intro exI[of _ g'] exI[of _ s3] conjI) (rule g' b s2' s3 d2 own')+
qed

theorem crash_run_witness:
  "streaming (iter \<lparr>batch = [],
                    iter = LazyIter_new
                      [''TypeError: oops'' @ [CHR 0x0A] @ ''    at foo.js:1:1'',
                       ''{\"time\":1690000000000,\"level\":30,\"msg\":\"ok\"}'']
                      (split_on (CHR 0x0A))\<rparr>)
   \<and> pending (iter \<lparr>batch = [],
                    iter = LazyIter_new
                      [''TypeError: oops'' @ [CHR 0x0A] @ ''    at foo.js:1:1'',
                       ''{\"time\":1690000000000,\"level\":30,\"msg\":\"ok\"}'']
                      (split_on (CHR 0x0A))\<rparr>)
       = (''TypeError: oops'' # [''    at foo.js:1:1''])
         @ ''{\"time\":1690000000000,\"level\":30,\"msg\":\"ok\"}'' # []
   \<and> JSON_parse example_runtime ''TypeError: oops'' = None
   \<and> JSON_parse example_runtime ''    at foo.js:1:1'' = None
   \<and> JSON_parse example_runtime ''{\"time\":1690000000000,\"level\":30,\"msg\":\"ok\"}''
       = Some (JObj [(''time'', JNum 1690000000000), (''level'', JNum 30), (''msg'', JStr ''ok'')])
   \<and> (\<exists>g'. drive example_runtime 7
               \<lparr>batch = [],
                iter = LazyIter_new
                  [''TypeError: oops'' @ [CHR 0x0A] @ ''    at foo.js:1:1'',
                   ''{\"time\":1690000000000,\"level\":30,\"msg\":\"ok\"}'']
                  (split_on (CHR 0x0A))\<rparr>
             = Some g'
           \<and> batch g' =
               [[(''level'', JStr ''fatal''),
                 (''datetime'', JStr (toISOString 7)),
                 (''message'', JStr ''[unable to infer due to this being a hard crash]''),
                 (''error'',
                  JObj [(''type'', JStr ''[unable to infer due to this being a hard crash]''),
                        (''message'', JStr ''[unable to infer due to this being a hard crash]''),
                        (''stack'',
                         JStr (''TypeError: oops'' @ [CHR 0x0A] @ ''    at foo.js:1:1''))])]]
           \<and> pending (iter g') = [''{\"time\":1690000000000,\"level\":30,\"msg\":\"ok\"}'']
           \<and> (\<exists>g''. drive example_runtime 8 g' = Some g''
                 \<and> batch g'' = batch g' @
                     [[(''message'', JStr ''ok''), (''error'', JUndefined),
                       (''datetime'', JStr ''2023-07-22T04:26:40.000Z''),
                       (''level'', JStr ''info'')]]
                 \<and> pending (iter g'') = []))
   \<and> streaming (iter \<lparr>batch = [],
                    iter = LazyIter_new
                      [''plain text'', ''    more text'',
                       ''{\"time\":1690000000000,\"level\":30,\"msg\":\"ok\"}'']
                      (split_on (CHR 0x0A))\<rparr>)
   \<and> pending (iter \<lparr>batch = [],
                    iter = LazyIter_new
                      [''plain text'', ''    more text'',
                       ''{\"time\":1690000000000,\"level\":30,\"msg\":\"ok\"}'']
                      (split_on (CHR 0x0A))\<rparr>)
       = (''plain text'' # [''    more text''])
         @ ''{\"time\":1690000000000,\"level\":30,\"msg\":\"ok\"}'' # []
   \<and> JSON_parse example_runtime ''plain text'' = None
   \<and> JSON_parse example_runtime ''    more text'' = None
   \<and> (\<exists>g'. drive example_runtime 7
               \<lparr>batch = [],
                iter = LazyIter_new
                  [''plain text'', ''    more text'',
                   ''{\"time\":1690000000000,\"level\":30,\"msg\":\"ok\"}'']
                  (split_on (CHR 0x0A))\<rparr>
             = Some g'
           \<and> batch g' = []
           \<and> pending (iter g') = [''{\"time\":1690000000000,\"level\":30,\"msg\":\"ok\"}'']
           \<and> (\<exists>g''. drive example_runtime 8 g' = Some g''
                 \<and> batch g'' =
                     [[(''message'', JStr ''ok''), (''error'', JUndefined),
                       (''datetime'', JStr ''2023-07-22T04:26:40.000Z''),
                       (''level'', JStr ''info'')]]
                 \<and> pending (iter g'') = []))"
proof -
  let ?v = "''{\"time\":1690000000000,\"level\":30,\"msg\":\"ok\"}''"
  let ?fs = "[(''time'', JNum 1690000000000), (''level'', JNum 30), (''msg'', JStr ''ok'')]"
  let ?g = "\<lparr>batch = [],
             iter = LazyIter_new [''TypeError: oops'' @ [CHR 0x0A] @ ''    at foo.js:1:1'', ?v]
                      (split_on (CHR 0x0A))\<rparr>"
  let ?h = "\<lparr>batch = [],
             iter = LazyIter_new [''plain text'', ''    more text'', ?v] (split_on (CHR 0x0A))\<rparr>"
  let ?own = "[(''message'', JStr ''ok''), (''error'', JUndefined),
               (''datetime'', JStr ''2023-07-22T04:26:40.000Z''), (''level'', JStr ''info'')]"
  have st: "streaming (iter ?g)" and st2: "streaming (iter ?h)"
    by (simp_all add: streaming_def LazyIter_new_def)
  have pe: "pending (iter ?g) = (''TypeError: oops'' # [''    at foo.js:1:1'']) @ ?v # []"
    and pe2: "pending (iter ?h) = (''plain text'' # [''    more text'']) @ ?v # []"
    by (simp_all add: pending_def LazyIter_new_def items_def)
  have "parse_json ''TypeError: oops'' = None" "parse_json ''    at foo.js:1:1'' = None"
    "parse_json ?v = Some (JObj ?fs)"
    "parse_json ''plain text'' = None" "parse_json ''    more text'' = None"
    by code_simp+
  then have p: "JSON_parse example_runtime ''TypeError: oops'' = None"
    "JSON_parse example_runtime ''    at foo.js:1:1'' = None"
    "JSON_parse example_runtime ?v = Some (JObj ?fs)"
    "JSON_parse example_runtime ''plain text'' = None"
    "JSON_parse example_runtime ''    more text'' = None"
    by (simp_all add: example_runtime_def)
  have un: "\<forall>l \<in> set (''TypeError: oops'' # [''    at foo.js:1:1'']). JSON_parse example_runtime l = None"
    and un2: "\<forall>l \<in> set (''plain text'' # [''    more text'']). JSON_parse example_runtime l = None"
    using p by simp_all
  have va: "JSON_parse example_runtime ?v \<noteq> None"
    using p by simp
  have "list_ex has_marker (''TypeError: oops'' # [''    at foo.js:1:1''])"
    by code_simp
  then have mk: "\<exists>l \<in> set (''TypeError: oops'' # [''    at foo.js:1:1'']).
      \<exists>a b c1 c2 c3 c4 c5. l = a @ [c1, c2, c3, c4, c5, CHR '':'', CHR '' ''] @ b
      \<and> (c1 = CHR ''e'' \<or> c1 = CHR ''E'') \<and> (c2 = CHR ''r'' \<or> c2 = CHR ''R'')
      \<and> (c3 = CHR ''r'' \<or> c3 = CHR ''R'') \<and> (c4 = CHR ''o'' \<or> c4 = CHR ''O'')
      \<and> (c5 = CHR ''r'' \<or> c5 = CHR ''R'')"
    unfolding list_ex_has_marker_letters .
  have "\<not> list_ex has_marker (''plain text'' # [''    more text''])"
    by code_simp
  then have nm: "\<not> (\<exists>l \<in> set (''plain text'' # [''    more text'']).
      \<exists>a b c1 c2 c3 c4 c5. l = a @ [c1, c2, c3, c4, c5, CHR '':'', CHR '' ''] @ b
      \<and> (c1 = CHR ''e'' \<or> c1 = CHR ''E'') \<and> (c2 = CHR ''r'' \<or> c2 = CHR ''R'')
      \<and> (c3 = CHR ''r'' \<or> c3 = CHR ''R'') \<and> (c4 = CHR ''o'' \<or> c4 = CHR ''O'')
      \<and> (c5 = CHR ''r'' \<or> c5 = CHR ''R''))"
    unfolding list_ex_has_marker_letters .
  have f: "field ?fs ''time'' = JNum 1690000000000" "TimeClip 1690000000000 = Some 1690000000000"
    "field ?fs ''level'' = JNum 30" "\<not> truthy (field ?fs ''name'')"
    by (simp_all add: field_def TimeClip_def)
  have r: "omit [''name''] (final_log ?fs 1690000000000 (table_level 30)) = ?own"
    by (simp add: final_log_def omit_def put_def field_def toISOString_example LEVELS_MAP_def
        table_level_def coalesce_def)
  have first: "\<exists>g'. drive example_runtime 7 ?g = Some g'
      \<and> batch g' =
          [[(''level'', JStr ''fatal''),
            (''datetime'', JStr (toISOString 7)),
            (''message'', JStr ''[unable to infer due to this being a hard crash]''),
            (''error'',
             JObj [(''type'', JStr ''[unable to infer due to this being a hard crash]''),
                   (''message'', JStr ''[unable to infer due to this being a hard crash]''),
                   (''stack'', JStr (''TypeError: oops'' @ [CHR 0x0A] @ ''    at foo.js:1:1''))])]]
      \<and> pending (iter g') = [?v]
      \<and> (\<exists>g''. drive example_runtime 8 g' = Some g''
            \<and> batch g'' = batch g' @ [?own]
            \<and> pending (iter g'') = [])"
  proof -
    from crash_run[OF st pe un va, of 7 8] obtain g' s' where
      g': "drive example_runtime 7 ?g = Some g'"
      and b: "batch g' =
        batch ?g @
        (if \<exists>l \<in> set (''TypeError: oops'' # [''    at foo.js:1:1'']).
              \<exists>a b c1 c2 c3 c4 c5. l = a @ [c1, c2, c3, c4, c5, CHR '':'', CHR '' ''] @ b
              \<and> (c1 = CHR ''e'' \<or> c1 = CHR ''E'') \<and> (c2 = CHR ''r'' \<or> c2 = CHR ''R'')
              \<and> (c3 = CHR ''r'' \<or> c3 = CHR ''R'') \<and> (c4 = CHR ''o'' \<or> c4 = CHR ''O'')
              \<and> (c5 = CHR ''r'' \<or> c5 = CHR ''R'')
         then [[(''level'', JStr ''fatal''),
                (''datetime'', JStr (toISOString 7)),
                (''message'', JStr ''[unable to infer due to this being a hard crash]''),
                (''error'',
                 JObj [(''type'', JStr ''[unable to infer due to this being a hard crash]''),
                       (''message'', JStr ''[unable to infer due to this being a hard crash]''),
                       (''stack'',
                        JStr (join [CHR 0x0A] (''TypeError: oops'' # [''    at foo.js:1:1''])))])]]
         else [])"
      and q: "pending (iter g') = ?v # []" "pending s' = []"
      and own: "\<forall>fs tq t lv.
        JSON_parse example_runtime ?v = Some (JObj fs) \<and> field fs ''time'' = JNum tq
        \<and> TimeClip tq = Some t \<and> field fs ''level'' = JNum lv
        \<longrightarrow> drive example_runtime 8 g' =
              Some (g'\<lparr>batch := batch g'
                         @ (if truthy (field fs ''name'')
                            then [name_warning 8 (final_log fs t (table_level lv))] else [])
                         @ [omit [''name''] (final_log fs t (table_level lv))],
                       iter := s'\<rparr>)"
      by blast
    from own p(3) f have d2: "drive example_runtime 8 g' =
        Some (g'\<lparr>batch := batch g' @ [omit [''name''] (final_log ?fs 1690000000000 (table_level 30))],
                 iter := s'\<rparr>)"
      by fastforce
    have b': "batch g' =
        [[(''level'', JStr ''fatal''),
          (''datetime'', JStr (toISOString 7)),
          (''message'', JStr ''[unable to infer due to this being a hard crash]''),
          (''error'',
           JObj [(''type'', JStr ''[unable to infer due to this being a hard crash]''),
                 (''message'', JStr ''[unable to infer due to this being a hard crash]''),
                 (''stack'', JStr (''TypeError: oops'' @ [CHR 0x0A] @ ''    at foo.js:1:1''))])]]"
      using b[unfolded if_P[OF mk]] by simp
    have "\<exists>g''. drive example_runtime 8 g' = Some g''
        \<and> batch g'' = batch g' @ [?own] \<and> pending (iter g'') = []"
      unfolding d2 r using q by simp
    with g' b' q(1) show ?thesis
      by blast
  qed
  have second: "\<exists>g'. drive example_runtime 7 ?h = Some g'
      \<and> batch g' = []
      \<and> pending (iter g') = [?v]
      \<and> (\<exists>g''. drive example_runtime 8 g' = Some g''
            \<and> batch g'' = [?own]
            \<and> pending (iter g'') = [])"
  proof -
    from crash_run[OF st2 pe2 un2 va, of 7 8] obtain g' s' where
      g': "drive example_runtime 7 ?h = Some g'"
      and b: "batch g' =
        batch ?h @
        (if \<exists>l \<in> set (''plain text'' # [''    more text'']).
              \<exists>a b c1 c2 c3 c4 c5. l = a @ [c1, c2, c3, c4, c5, CHR '':'', CHR '' ''] @ b
              \<and> (c1 = CHR ''e'' \<or> c1 = CHR ''E'') \<and> (c2 = CHR ''r'' \<or> c2 = CHR ''R'')
              \<and> (c3 = CHR ''r'' \<or> c3 = CHR ''R'') \<and> (c4 = CHR ''o'' \<or> c4 = CHR ''O'')
              \<and> (c5 = CHR ''r'' \<or> c5 = CHR ''R'')
         then [[(''level'', JStr ''fatal''),
                (''datetime'', JStr (toISOString 7)),
                (''message'', JStr ''[unable to infer due to this being a hard crash]''),
                (''error'',
                 JObj [(''type'', JStr ''[unable to infer due to this being a hard crash]''),
                       (''message'', JStr ''[unable to infer due to this being a hard crash]''),
                       (''stack'',
                        JStr (join [CHR 0x0A] (''plain text'' # [''    more text''])))])]]
         else [])"
      and q: "pending (iter g') = ?v # []" "pending s' = []"
      and own: "\<forall>fs tq t lv.
        JSON_parse example_runtime ?v = Some (JObj fs) \<and> field fs ''time'' = JNum tq
        \<and> TimeClip tq = Some t \<and> field fs ''level'' = JNum lv
        \<longrightarrow> drive example_runtime 8 g' =
              Some (g'\<lparr>batch := batch g'
                         @ (if truthy (field fs ''name'')
                            then [name_warning 8 (final_log fs t (table_level lv))] else [])
                         @ [omit [''name''] (final_log fs t (table_level lv))],
                       iter := s'\<rparr>)"
      by blast
    from own p(3) f have d2: "drive example_runtime 8 g' =
        Some (g'\<lparr>batch := batch g' @ [omit [''name''] (final_log ?fs 1690000000000 (table_level 30))],
                 iter := s'\<rparr>)"
      by fastforce
    have b': "batch g' = []"
      using b[unfolded if_not_P[OF nm]] by simp
    have "\<exists>g''. drive example_runtime 8 g' = Some g''
        \<and> batch g'' = [?own] \<and> pending (iter g'') = []"
      unfolding d2 r using q b' by simp
    with g' b' q(1) show ?thesis
      by blast
  qed
  from st pe p(1,2,3) first st2 pe2 p(4,5) second show ?thesis
    by (intro conjI)
qed

text \<open>
  C3 as stated fails when the line before the run parses but makes the \<open>try\<close> block
  throw: that line enters the \<open>catch\<close> block, becomes the first part of the stack and
  takes the run with it. After the line \<open>null\<close>, the one-line run \<open>oops error: x\<close>
  gives a record whose stack is the two lines, not the run. After the line
  \<open>"Error: x"\<close>, a JSON string, the one-line run \<open>plain text\<close>, which has no marker,
  still gives a record at level \<open>fatal\<close>. After a record whose \<open>time\<close> is out of the
  range of dates, the one-line run \<open>TypeError: oops\<close> gives a record whose stack
  starts with that record's line.
\<close>

theorem crash_run_after_caught_line_counterexample:
  "JSON_parse example_runtime ''null'' = Some JNull
   \<and> JSON_parse example_runtime ''oops error: x'' = None
   \<and> JSON_parse example_runtime ''{\"time\":0,\"level\":30}''
       = Some (JObj [(''time'', JNum 0), (''level'', JNum 30)])
   \<and> (\<exists>g'. drive example_runtime 7
               \<lparr>batch = [],
                iter = LazyIter_new [''null'', ''oops error: x'', ''{\"time\":0,\"level\":30}'']
                         (split_on (CHR 0x0A))\<rparr>
             = Some g'
           \<and> batch g' =
               [[(''level'', JStr ''fatal''),
                 (''datetime'', JStr (toISOString 7)),
                 (''message'', JStr ''[unable to infer due to this being a hard crash]''),
                 (''error'',
                  JObj [(''type'', JStr ''[unable to infer due to this being a hard crash]''),
                        (''message'', JStr ''[unable to infer due to this being a hard crash]''),
                        (''stack'', JStr (''null'' @ [CHR 0x0A] @ ''oops error: x''))])]]
           \<and> pending (iter g') = [''{\"time\":0,\"level\":30}''])
   \<and> JSON_parse example_runtime ''\"Error: x\"'' = Some (JStr ''Error: x'')
   \<and> JSON_parse example_runtime ''plain text'' = None
   \<and> (\<exists>g'. drive example_runtime 7
               \<lparr>batch = [],
                iter = LazyIter_new
                         [''\"Error: x\"'', ''plain text'', ''{\"time\":0,\"level\":30}'']
                         (split_on (CHR 0x0A))\<rparr>
             = Some g'
           \<and> batch g' =
               [[(''level'', JStr ''fatal''),
                 (''datetime'', JStr (toISOString 7)),
                 (''message'', JStr ''[unable to infer due to this being a hard crash]''),
                 (''error'',
                  JObj [(''type'', JStr ''[unable to infer due to this being a hard crash]''),
                        (''message'', JStr ''[unable to infer due to this being a hard crash]''),
                        (''stack'', JStr (''\"Error: x\"'' @ [CHR 0x0A] @ ''plain text''))])]]
           \<and> pending (iter g') = [''{\"time\":0,\"level\":30}''])
   \<and> JSON_parse example_runtime ''{\"time\":9000000000000000,\"level\":30}''
       = Some (JObj [(''time'', JNum 9000000000000000), (''level'', JNum 30)])
   \<and> JSON_parse example_runtime ''TypeError: oops'' = None
   \<and> (\<exists>g'. drive example_runtime 7
               \<lparr>batch = [],
                iter = LazyIter_new
                         [''{\"time\":9000000000000000,\"level\":30}'', ''TypeError: oops'',
                          ''{\"time\":0,\"level\":30}'']
                         (split_on (CHR 0x0A))\<rparr>
             = Some g'
           \<and> batch g' =
               [[(''level'', JStr ''fatal''),
                 (''datetime'', JStr (toISOString 7)),
                 (''message'', JStr ''[unable to infer due to this being a hard crash]''),
                 (''error'',
                  JObj [(''type'', JStr ''[unable to infer due to this being a hard crash]''),
                        (''message'', JStr ''[unable to infer due to this being a hard crash]''),
                        (''stack'',
                         JStr (''{\"time\":9000000000000000,\"level\":30}'' @ [CHR 0x0A]
                               @ ''TypeError: oops''))])]]
           \<and> pending (iter g') = [''{\"time\":0,\"level\":30}''])"
proof -
  let ?v = "''{\"time\":0,\"level\":30}''"
  let ?late = "''{\"time\":9000000000000000,\"level\":30}''"
  let ?bad = "\<lambda>l. \<not> isValidJson example_runtime l"
  let ?g = "\<lambda>first run. \<lparr>batch = [],
      iter = LazyIter_new [first, run, ?v] (split_on (CHR 0x0A))\<rparr>"
  have "parse_json ''null'' = Some JNull" "parse_json ''oops error: x'' = None"
    "parse_json ?v = Some (JObj [(''time'', JNum 0), (''level'', JNum 30)])"
    "parse_json ''\"Error: x\"'' = Some (JStr ''Error: x'')" "parse_json ''plain text'' = None"
    "parse_json ?late = Some (JObj [(''time'', JNum 9000000000000000), (''level'', JNum 30)])"
    "parse_json ''TypeError: oops'' = None"
    by code_simp+
  then have p: "JSON_parse example_runtime ''null'' = Some JNull"
    "JSON_parse example_runtime ''oops error: x'' = None"
    "JSON_parse example_runtime ?v = Some (JObj [(''time'', JNum 0), (''level'', JNum 30)])"
    "JSON_parse example_runtime ''\"Error: x\"'' = Some (JStr ''Error: x'')"
    "JSON_parse example_runtime ''plain text'' = None"
    "JSON_parse example_runtime ?late
       = Some (JObj [(''time'', JNum 9000000000000000), (''level'', JNum 30)])"
    "JSON_parse example_runtime ''TypeError: oops'' = None"
    by (simp_all add: example_runtime_def)
  have st: "streaming (iter (?g first run))" for first run
    by (simp add: streaming_def LazyIter_new_def)
  have pe: "pending (iter (?g ''null'' ''oops error: x'')) = ''null'' # [''oops error: x'', ?v]"
    "pending (iter (?g ''\"Error: x\"'' ''plain text'')) = ''\"Error: x\"'' # [''plain text'', ?v]"
    "pending (iter (?g ?late ''TypeError: oops'')) = ?late # [''TypeError: oops'', ?v]"
    by (simp_all add: pending_def LazyIter_new_def items_def)
  have tw: "takeWhile ?bad [''oops error: x'', ?v] = [''oops error: x'']"
    "takeWhile ?bad [''plain text'', ?v] = [''plain text'']"
    "takeWhile ?bad [''TypeError: oops'', ?v] = [''TypeError: oops'']"
    and dw: "dropWhile ?bad [''oops error: x'', ?v] = [?v]"
    "dropWhile ?bad [''plain text'', ?v] = [?v]"
    "dropWhile ?bad [''TypeError: oops'', ?v] = [?v]"
    using p by (simp_all add: isValidJson_def)
  have tb: "try_block example_runtime 7 ''null'' [] = Inl TypeError"
    "try_block example_runtime 7 ''\"Error: x\"'' [] = Inl TypeError"
    "try_block example_runtime 7 ?late [] = Inl RangeError"
    by code_simp+
  have mk: "list_ex has_marker [''null'', ''oops error: x'']"
    "list_ex has_marker [''\"Error: x\"'', ''plain text'']"
    "list_ex has_marker [?late, ''TypeError: oops'']"
    by code_simp+
  have one: "\<exists>g'. drive example_runtime 7 (?g first run) = Some g'
      \<and> batch g' =
          [[(''level'', JStr ''fatal''),
            (''datetime'', JStr (toISOString 7)),
            (''message'', JStr ''[unable to infer due to this being a hard crash]''),
            (''error'',
             JObj [(''type'', JStr ''[unable to infer due to this being a hard crash]''),
                   (''message'', JStr ''[unable to infer due to this being a hard crash]''),
                   (''stack'', JStr (first @ [CHR 0x0A] @ run))])]]
      \<and> pending (iter g') = [?v]"
    if "try_block example_runtime 7 first [] = Inl e" "takeWhile ?bad [run, ?v] = [run]"
      "dropWhile ?bad [run, ?v] = [?v]" "list_ex has_marker [first, run]"
      "pending (iter (?g first run)) = first # [run, ?v]" for first run e
  proof -
    have "try_block example_runtime 7 first (batch (?g first run)) = Inl e"
      using that(1) by simp
    from drive_caught[OF st that(5) this that(2,3)] obtain g' where
      "drive example_runtime 7 (?g first run) = Some g'"
      "batch g' = batch (?g first run) @
         (if list_ex has_marker [first, run] then [crash_log 7 [first, run]] else [])"
      "pending (iter g') = [?v]"
      by blast
    with that(4) show ?thesis
      by (simp add: crash_log_def crash_message_def)
  qed
  from p(1,2,3) one[OF tb(1) tw(1) dw(1) mk(1) pe(1)] p(4,5) one[OF tb(2) tw(2) dw(2) mk(2) pe(2)]
    p(6,7) one[OF tb(3) tw(3) dw(3) mk(3) pe(3)]
  show ?thesis
    by (intro conjI)
qed

section \<open>The batch\<close>

text \<open>
  C7. Every record in the batch has a \<open>datetime\<close> and a \<open>level\<close> and no \<open>name\<close>,
  and every operation that pushes keeps it so: \<open>handleLog\<close> on a record that has a
  \<open>datetime\<close> and a \<open>level\<close>, as its type demands; \<open>handleInvalid\<close>; \<open>handleLine\<close> on
  any line and stream; a pass of the driver; and \<open>flush\<close>, for the body it posts, for
  the records it pushes and then takes out, and for the batch it leaves, whatever
  well-formed records the driver pushes in between.
\<close>

theorem batch_well_formed:
  assumes "list_all well_formed batch0"
  shows "(has entry ''datetime'' \<and> has entry ''level''
            \<longrightarrow> list_all well_formed (handleLog now entry batch0))
       \<and> list_all well_formed (handleInvalid now v fld batch0)
       \<and> (\<forall>u g'. handleLine rt now line \<lparr>batch = batch0, iter = s\<rparr> = Return u g'
            \<longrightarrow> list_all well_formed (batch g'))
       \<and> (\<forall>g'. drive rt now \<lparr>batch = batch0, iter = s\<rparr> = Some g'
            \<longrightarrow> list_all well_formed (batch g'))
       \<and> (list_all well_formed (during_request env) \<and> list_all well_formed (during_webhook env)
            \<longrightarrow> list_all well_formed (removed (flush env batch0))
              \<and> list_all well_formed (batch_after (flush env batch0))
              \<and> (\<forall>body. posted (flush env batch0) = Some body \<longrightarrow> list_all well_formed body))"
proof -
  have "list_all well_formed (batch g')"
    if "handleLine rt now line \<lparr>batch = batch0, iter = s\<rparr> = Return u g'" for u g'
    using handleLine_well_formed[of "\<lparr>batch = batch0, iter = s\<rparr>" rt now line u g'] assms that
    by simp
  moreover have "list_all well_formed (batch g')"
    if "drive rt now \<lparr>batch = batch0, iter = s\<rparr> = Some g'" for g'
    using drive_well_formed[of "\<lparr>batch = batch0, iter = s\<rparr>" rt now g'] assms that
    by simp
  ultimately show ?thesis
    using assms handleLog_well_formed[OF assms, of entry now]
      handleInvalid_well_formed[OF assms, of now v fld] flush_well_formed[OF assms, of env]
    by blast
qed

theorem batch_well_formed_witness:
  "list_all well_formed [[(''datetime'', JStr ''2023-07-22T04:26:40.000Z''), (''level'', JStr ''info'')]]
   \<and> has [(''datetime'', JStr ''2023-07-22T04:26:41.000Z''), (''level'', JStr ''debug''),
           (''name'', JStr ''svc'')] ''datetime''
   \<and> has [(''datetime'', JStr ''2023-07-22T04:26:41.000Z''), (''level'', JStr ''debug''),
           (''name'', JStr ''svc'')] ''level''
   \<and> list_all well_formed
        (handleLog 0
           [(''datetime'', JStr ''2023-07-22T04:26:41.000Z''), (''level'', JStr ''debug''),
            (''name'', JStr ''svc'')]
           [[(''datetime'', JStr ''2023-07-22T04:26:40.000Z''), (''level'', JStr ''info'')]])
   \<and> handleLine example_runtime 0 ''{\"level\":30}''
        \<lparr>batch = [[(''datetime'', JStr ''2023-07-22T04:26:40.000Z''), (''level'', JStr ''info'')]],
         iter = LazyIter_new [] (split_on (CHR 0x0A))\<rparr>
      = Return ()
          \<lparr>batch = [[(''datetime'', JStr ''2023-07-22T04:26:40.000Z''), (''level'', JStr ''info'')],
                    [(''datetime'', JStr (toISOString 0)), (''level'', JStr ''warn''),
                     (''message'', JStr ''Invalid log line, missing time field''),
                     (''log'', JObj [(''level'', JNum 30)])]],
           iter = LazyIter_new [] (split_on (CHR 0x0A))\<rparr>
   \<and> list_all well_formed
        [[(''datetime'', JStr ''2023-07-22T04:26:40.000Z''), (''level'', JStr ''info'')],
         [(''datetime'', JStr (toISOString 0)), (''level'', JStr ''warn''),
          (''message'', JStr ''Invalid log line, missing time field''),
          (''log'', JObj [(''level'', JNum 30)])]]
   \<and> drive example_runtime 0
        \<lparr>batch = [[(''datetime'', JStr ''2023-07-22T04:26:40.000Z''), (''level'', JStr ''info'')]],
         iter = LazyIter_new [] (split_on (CHR 0x0A))\<rparr>
      = Some
          \<lparr>batch = [[(''datetime'', JStr ''2023-07-22T04:26:40.000Z''), (''level'', JStr ''info'')]],
           iter = loop_body (LazyIter_new [] (split_on (CHR 0x0A)))\<rparr>
   \<and> list_all well_formed
        (during_request
           \<lparr>statusCode = 500, response = JNull, webhook_error = Some (''boom'', ''Error'', ''at x''),
            now_fatal = 1, now_warn = 2, during_request = [], during_webhook = [],
            SERVICE_NAME = ''svc''\<rparr>)
   \<and> list_all well_formed
        (during_webhook
           \<lparr>statusCode = 500, response = JNull, webhook_error = Some (''boom'', ''Error'', ''at x''),
            now_fatal = 1, now_warn = 2, during_request = [], during_webhook = [],
            SERVICE_NAME = ''svc''\<rparr>)
   \<and> list_all well_formed
        (removed
           (flush
              \<lparr>statusCode = 500, response = JNull,
               webhook_error = Some (''boom'', ''Error'', ''at x''),
               now_fatal = 1, now_warn = 2, during_request = [], during_webhook = [],
               SERVICE_NAME = ''svc''\<rparr>
              [[(''datetime'', JStr ''2023-07-22T04:26:40.000Z''), (''level'', JStr ''info'')]]))"
proof -
  let ?b = "[[(''datetime'', JStr ''2023-07-22T04:26:40.000Z''), (''level'', JStr ''info'')]]"
  let ?e = "[(''datetime'', JStr ''2023-07-22T04:26:41.000Z''), (''level'', JStr ''debug''),
             (''name'', JStr ''svc'')]"
  let ?s = "LazyIter_new [] (split_on (CHR 0x0A)) :: string LazyIter"
  let ?env = "\<lparr>statusCode = 500, response = JNull,
               webhook_error = Some (''boom'', ''Error'', ''at x''),
               now_fatal = 1, now_warn = 2, during_request = [], during_webhook = [],
               SERVICE_NAME = ''svc''\<rparr>"
  have b: "list_all well_formed ?b"
    by (simp add: well_formed_def has_def)
  have e: "has ?e ''datetime''" "has ?e ''level''"
    by (simp_all add: has_def)
  have "parse_json ''{\"level\":30}'' = Some (JObj [(''level'', JNum 30)])"
    by code_simp
  then have p: "JSON_parse example_runtime ''{\"level\":30}'' = Some (JObj [(''level'', JNum 30)])"
    by (simp add: example_runtime_def)
  have h: "handleLine example_runtime 0 ''{\"level\":30}'' \<lparr>batch = ?b, iter = ?s\<rparr>
      = Return ()
          \<lparr>batch = ?b @ [[(''datetime'', JStr (toISOString 0)), (''level'', JStr ''warn''),
                           (''message'', JStr ''Invalid log line, missing time field''),
                           (''log'', JObj [(''level'', JNum 30)])]],
           iter = ?s\<rparr>"
    using p
    by (simp add: handleLine_def try_block_def handleInvalid_def invalid_log_def handleLog_plain
        field_def omit_def has_def)
  have d: "drive example_runtime 0 \<lparr>batch = ?b, iter = ?s\<rparr>
      = Some \<lparr>batch = ?b, iter = loop_body ?s\<rparr>"
    by (simp add: drive_def next_item_def get_done_def wait.simps LazyIter_new_def)
  have w: "list_all well_formed (during_request ?env)" "list_all well_formed (during_webhook ?env)"
    by simp_all
  from batch_well_formed[OF b, of ?e 0 "JObj []" "''time''" example_runtime "''{\"level\":30}''" ?s ?env]
    b e h d w
  show ?thesis
    by simp
qed

section \<open>What a flush loses\<close>

text \<open>
  C1 fails on the code. The sink answers 500 to a batch of one record. \<open>flush\<close> pushes
  the \<open>fatal\<close> record about the failure behind the record it has posted, and its
  final \<open>splice\<close> takes both out: the batch it leaves is empty, and the record about
  the failure is in no later batch.
\<close>

theorem flush_failure_record_lost:
  "flush \<lparr>statusCode = 500, response = JNull, webhook_error = None, now_fatal = 1, now_warn = 2,
          during_request = [], during_webhook = [], SERVICE_NAME = ''svc''\<rparr>
     [[(''datetime'', JStr ''2023-07-22T04:26:40.000Z''), (''level'', JStr ''info''),
       (''message'', JStr ''ok'')]]
   = \<lparr>posted = Some [[(''datetime'', JStr ''2023-07-22T04:26:40.000Z''), (''level'', JStr ''info''),
                       (''message'', JStr ''ok'')]],
      alerted = Some [\<lparr>title = ''Fatal error occured in service svc'',
                        description =
                          JStr ''Failed to send logs to Parseable, got status code 500''\<rparr>],
      removed = [[(''datetime'', JStr ''2023-07-22T04:26:40.000Z''), (''level'', JStr ''info''),
                  (''message'', JStr ''ok'')],
                 [(''datetime'', JStr ''1970-01-01T00:00:00.001Z''),
                  (''level'', JStr ''fatal''),
                  (''message'', JStr ''Failed to send logs to Parseable, got status code 500''),
                  (''statusCode'', JNum 500),
                  (''response'', JNull)]],
      batch_after = []\<rparr>"
  by code_simp

text \<open>
  C2 fails on the code. While \<open>flush\<close> awaits the sink, which answers 200, the driver
  pushes a second record. The body posted holds the first record only, and the final
  \<open>splice\<close> takes both out: the second record is in no batch any more.
\<close>

theorem flush_clears_later_records:
  "flush \<lparr>statusCode = 200, response = JNull, webhook_error = None, now_fatal = 1, now_warn = 2,
          during_request =
            [[(''datetime'', JStr ''2023-07-22T04:26:41.000Z''), (''level'', JStr ''info''),
              (''message'', JStr ''late'')]],
          during_webhook = [], SERVICE_NAME = ''svc''\<rparr>
     [[(''datetime'', JStr ''2023-07-22T04:26:40.000Z''), (''level'', JStr ''info''),
       (''message'', JStr ''ok'')]]
   = \<lparr>posted = Some [[(''datetime'', JStr ''2023-07-22T04:26:40.000Z''), (''level'', JStr ''info''),
                       (''message'', JStr ''ok'')]],
      alerted = None,
      removed = [[(''datetime'', JStr ''2023-07-22T04:26:40.000Z''), (''level'', JStr ''info''),
                  (''message'', JStr ''ok'')],
                 [(''datetime'', JStr ''2023-07-22T04:26:41.000Z''), (''level'', JStr ''info''),
                  (''message'', JStr ''late'')]],
      batch_after = []\<rparr>"
  by code_simp

end
